theory Spec2Isabelle
  imports Complex_Main "HOL-Library.Sublist" "HOL-Library.Multiset"
begin

section \<open>The rendering context\<close>

text \<open>
  The Scene class talks to a \<^verbatim>\<open>CanvasRenderingContext2D\<close>. The calls it makes are
  \<^verbatim>\<open>fillStyle =\<close>, \<^verbatim>\<open>filter =\<close>, \<^verbatim>\<open>fillRect\<close>, \<^verbatim>\<open>save\<close>, \<^verbatim>\<open>restore\<close>, \<^verbatim>\<open>translate\<close> and
  \<^verbatim>\<open>scale\<close>. The context is modelled by the part of its state these calls read and
  write: the canvas size, the current drawing state (transform, fill style, filter), the
  stack of saved drawing states, and the list of rectangles painted so far.

  Numbers are JavaScript numbers in the source. Finite values are modelled as exact
  reals (rounding is not modelled); the one division of the source whose divisor can be
  zero, \<^verbatim>\<open>ctx.canvas.height / ctx.canvas.width\<close>, is modelled with its non-finite results.
  Canvas dimensions are the unsigned integers of the canvas element. The fields
  \<open>logicalWidth\<close>, \<open>aspectRatio\<close> and \<open>layer\<close> and the camera transform hold finite numbers.
  Colour and filter strings are not parsed: an assignment stores the string.
\<close>

record matrix =
  ma :: real
  mb :: real
  mc :: real
  md :: real
  me :: real
  mf :: real

record drawstate =
  transform :: matrix
  fillStyle :: string
  ctx_filter :: string

record canvas =
  width :: nat
  height :: nat

record paint =
  rect :: "real \<times> real \<times> real \<times> real"
  state :: drawstate

record ctx2d =
  canvas :: canvas
  cur :: drawstate
  stack :: "drawstate list"
  painted :: "paint list"

datatype call =
    FillStyle string
  | Filter string
  | FillRect real real real real
  | Save
  | Restore
  | Translate real real
  | Scale real real

text \<open>\<^verbatim>\<open>translate\<close> and \<^verbatim>\<open>scale\<close> multiply the current matrix from the right.\<close>

definition translate :: "real \<Rightarrow> real \<Rightarrow> matrix \<Rightarrow> matrix" where
  "translate x y m = m\<lparr>me := ma m * x + mc m * y + me m, mf := mb m * x + md m * y + mf m\<rparr>"

definition scale :: "real \<Rightarrow> real \<Rightarrow> matrix \<Rightarrow> matrix" where
  "scale sx sy m = m\<lparr>ma := ma m * sx, mb := mb m * sx, mc := mc m * sy, md := md m * sy\<rparr>"

text \<open>\<^verbatim>\<open>restore\<close> on an empty stack does nothing.\<close>

fun apply_call :: "call \<Rightarrow> ctx2d \<Rightarrow> ctx2d" where
  "apply_call (FillStyle v) c = c\<lparr>cur := (cur c)\<lparr>fillStyle := v\<rparr>\<rparr>"
| "apply_call (Filter v) c = c\<lparr>cur := (cur c)\<lparr>ctx_filter := v\<rparr>\<rparr>"
| "apply_call (FillRect x y w h) c =
     c\<lparr>painted := painted c @ [\<lparr>rect = (x, y, w, h), state = cur c\<rparr>]\<rparr>"
| "apply_call Save c = c\<lparr>stack := cur c # stack c\<rparr>"
| "apply_call Restore c =
     (case stack c of [] \<Rightarrow> c | d # ds \<Rightarrow> c\<lparr>cur := d, stack := ds\<rparr>)"
| "apply_call (Translate x y) c = c\<lparr>cur := (cur c)\<lparr>transform := translate x y (transform (cur c))\<rparr>\<rparr>"
| "apply_call (Scale sx sy) c = c\<lparr>cur := (cur c)\<lparr>transform := scale sx sy (transform (cur c))\<rparr>\<rparr>"

section \<open>Game objects, hooks and the world\<close>

text \<open>
  A hook (\<^verbatim>\<open>start\<close>, \<^verbatim>\<open>update\<close>, \<^verbatim>\<open>draw\<close>) is code the Scene does not own. It receives the
  rendering context, may change it in any way, and either returns or throws. Effects of
  a hook on anything but the context it is handed (the scene, other objects, the array of
  game objects) are outside the model, and so is a hook that never returns.
\<close>

datatype 'a completion = Normal 'a | Throw string 'a

type_synonym hook = "ctx2d \<Rightarrow> ctx2d completion"

record gameObject =
  layer :: real
  start :: "hook option"
  update :: "hook option"
  draw :: "hook option"

datatype hook_kind = Start | Update | Draw

text \<open>
  What the Scene does is observed in a trace: every call it makes on the context, and
  every hook it invokes together with the context the hook was handed.
\<close>

datatype event =
    Ctx call
  | SceneStart ctx2d
  | Invoked hook_kind gameObject ctx2d

text \<open>
  Arrays are objects with identity: \<^verbatim>\<open>this.gameObjects\<close> holds a reference, the spread
  \<^verbatim>\<open>[...this.gameObjects]\<close> allocates a new array, and \<^verbatim>\<open>sort\<close> works in place.
\<close>

type_synonym addr = nat

record world =
  ctx :: ctx2d
  arrays :: "addr \<Rightarrow> gameObject list"
  next_addr :: addr
  trace :: "event list"

record scene =
  backgroundColor :: string
  gameObjects :: addr
  hasStarted :: bool
  logicalWidth :: real
  aspectRatio :: real
  start_hook :: "hook option"

fun state_of :: "'a completion \<Rightarrow> 'a" where
  "state_of (Normal a) = a"
| "state_of (Throw e a) = a"

fun is_Normal :: "'a completion \<Rightarrow> bool" where
  "is_Normal (Normal a) = True"
| "is_Normal (Throw e a) = False"

definition issue :: "call \<Rightarrow> world \<Rightarrow> world" where
  "issue k w = w\<lparr>ctx := apply_call k (ctx w), trace := trace w @ [Ctx k]\<rparr>"

text \<open>
  \<^verbatim>\<open>if (obj.f) obj.f(ctx)\<close>: an absent hook is skipped; a present one is run on the
  context and recorded, with the context it was handed, whether it returns or throws.
\<close>

fun call_hook :: "(ctx2d \<Rightarrow> event) \<Rightarrow> hook option \<Rightarrow> world \<Rightarrow> world completion" where
  "call_hook ev None w = Normal w"
| "call_hook ev (Some h) w =
     (case h (ctx w) of
        Normal c' \<Rightarrow> Normal (w\<lparr>ctx := c', trace := trace w @ [ev (ctx w)]\<rparr>)
      | Throw e c' \<Rightarrow> Throw e (w\<lparr>ctx := c', trace := trace w @ [ev (ctx w)]\<rparr>))"

definition invoke :: "hook_kind \<Rightarrow> gameObject \<Rightarrow> hook option \<Rightarrow> world \<Rightarrow> world completion" where
  "invoke k g f w = call_hook (Invoked k g) f w"

text \<open>\<^verbatim>\<open>for (const gameObject of xs) body\<close>: a throwing body ends the loop.\<close>

fun for_of :: "(gameObject \<Rightarrow> world \<Rightarrow> world completion) \<Rightarrow> gameObject list \<Rightarrow> world \<Rightarrow> world completion" where
  "for_of body [] w = Normal w"
| "for_of body (g # gs) w =
     (case body g w of
        Normal w' \<Rightarrow> for_of body gs w'
      | Throw e w' \<Rightarrow> Throw e w')"

section \<open>Scene (src/unnamed/part_000)\<close>

text \<open>The constructor and the field initialisers.\<close>

definition new_Scene :: "string \<Rightarrow> world \<Rightarrow> scene \<times> world" where
  "new_Scene color w =
     (\<lparr>backgroundColor = color, gameObjects = next_addr w, hasStarted = False,
       logicalWidth = - 1, aspectRatio = - 1, start_hook = None\<rparr>,
      w\<lparr>arrays := (arrays w)(next_addr w := []), next_addr := Suc (next_addr w)\<rparr>)"

text \<open>\<^verbatim>\<open>_start(ctx)\<close>; \<open>start_hook\<close> is the optional \<^verbatim>\<open>this.start\<close> of the scene.\<close>

definition start_object :: "gameObject \<Rightarrow> world \<Rightarrow> world completion" where
  "start_object g w = invoke Start g (start g) w"

definition Scene_start :: "scene \<Rightarrow> world \<Rightarrow> (scene \<times> world) completion" where
  "Scene_start s w =
     (if \<not> hasStarted s then
        (let s1 = s\<lparr>hasStarted := True\<rparr> in
         case call_hook SceneStart (start_hook s1) w of
           Throw e w1 \<Rightarrow> Throw e (s1, w1)
         | Normal w1 \<Rightarrow>
             (case for_of start_object (arrays w1 (gameObjects s1)) w1 of
                Throw e w2 \<Rightarrow> Throw e (s1, w2)
              | Normal w2 \<Rightarrow> Normal (s1, w2)))
      else Normal (s, w))"

text \<open>\<^verbatim>\<open>update(ctx)\<close>\<close>

definition update_object :: "gameObject \<Rightarrow> world \<Rightarrow> world completion" where
  "update_object g w = invoke Update g (update g) w"

definition Scene_update :: "scene \<Rightarrow> world \<Rightarrow> world completion" where
  "Scene_update s w = for_of update_object (arrays w (gameObjects s)) w"

subsection \<open>draw(ctx)\<close>

text \<open>
  \<^verbatim>\<open>ctx.canvas.height / ctx.canvas.width\<close> on unsigned integers: a zero width gives
  \<^verbatim>\<open>Infinity\<close>, or \<^verbatim>\<open>NaN\<close> when the height is zero too. Every comparison with \<^verbatim>\<open>NaN\<close> is
  false.
\<close>

datatype number = Finite real | Infinity | NaN

definition js_div :: "nat \<Rightarrow> nat \<Rightarrow> number" where
  "js_div p q = (if q = 0 then (if p = 0 then NaN else Infinity) else Finite (real p / real q))"

fun js_gt :: "real \<Rightarrow> number \<Rightarrow> bool" where
  "js_gt v (Finite r) = (v > r)"
| "js_gt v Infinity = False"
| "js_gt v NaN = False"

fun js_le :: "real \<Rightarrow> number \<Rightarrow> bool" where
  "js_le v (Finite r) = (v \<le> r)"
| "js_le v Infinity = True"
| "js_le v NaN = False"

text \<open>\<^verbatim>\<open>Camera.main.transform\<close>, read by draw; the Camera class is not part of the sources.\<close>

record camera_transform =
  transform_x :: real
  transform_y :: real
  scaleX :: real
  scaleY :: real

text \<open>The local variables of draw; a \<^verbatim>\<open>let\<close> without initialiser is \<open>None\<close>.\<close>

record draw_locals =
  windowAspectRatio :: number
  letterBox1End :: "real option"
  letterBox2Start :: "real option"
  usingLogicalCoordinates :: bool

text \<open>Lines 77 to 80: clear the canvas and save the drawing state.\<close>

definition draw_clear :: "scene \<Rightarrow> world \<Rightarrow> world" where
  "draw_clear s w =
     (let w1 = issue (FillStyle (backgroundColor s)) w;
          w2 = issue (FillRect 0 0 (real (width (canvas (ctx w1)))) (real (height (canvas (ctx w1))))) w1
      in issue Save w2)"

text \<open>Lines 83 to 105: the letterbox transform.\<close>

definition draw_viewport :: "scene \<Rightarrow> world \<Rightarrow> draw_locals \<times> world" where
  "draw_viewport s w =
     (let cw = real (width (canvas (ctx w)));
          ch = real (height (canvas (ctx w)));
          war = js_div (height (canvas (ctx w))) (width (canvas (ctx w)));
          usingLogical = (logicalWidth s > 0 \<and> aspectRatio s > 0)
      in if usingLogical then
           (if js_gt (aspectRatio s) war then
              (let l1 = cw / 2 - (ch / aspectRatio s) / 2;
                   l2 = cw / 2 + (ch / aspectRatio s) / 2;
                   w1 = issue (Translate l1 0) w;
                   scaleFactor = ch / logicalWidth s
               in (\<lparr>windowAspectRatio = war, letterBox1End = Some l1, letterBox2Start = Some l2,
                    usingLogicalCoordinates = usingLogical\<rparr>,
                   issue (Scale scaleFactor scaleFactor) w1))
            else
              (let l1 = ch / 2 - (cw * aspectRatio s) / 2;
                   l2 = (cw * aspectRatio s) / 2 + ch / 2;
                   w1 = issue (Translate 0 l1) w;
                   scaleFactor = cw / (logicalWidth s / aspectRatio s)
               in (\<lparr>windowAspectRatio = war, letterBox1End = Some l1, letterBox2Start = Some l2,
                    usingLogicalCoordinates = usingLogical\<rparr>,
                   issue (Scale scaleFactor scaleFactor) w1)))
         else
           (\<lparr>windowAspectRatio = war, letterBox1End = None, letterBox2Start = None,
             usingLogicalCoordinates = usingLogical\<rparr>, w))"

text \<open>Lines 107 and 108: the camera transform.\<close>

definition draw_camera :: "camera_transform \<Rightarrow> world \<Rightarrow> world" where
  "draw_camera cam w =
     issue (Translate (- transform_x cam) (- transform_y cam))
       (issue (Scale (scaleX cam) (scaleY cam)) w)"

text \<open>
  Lines 111 and 112: \<^verbatim>\<open>[...this.gameObjects]\<close> and \<^verbatim>\<open>.sort((a, b) => a.layer - b.layer)\<close>.
  The sort is the stable sort of the language, as an insertion sort steered by the
  comparator: an element goes before the first one it does not compare greater than.
\<close>

definition spread :: "addr \<Rightarrow> world \<Rightarrow> addr \<times> world" where
  "spread a w =
     (next_addr w, w\<lparr>arrays := (arrays w)(next_addr w := arrays w a), next_addr := Suc (next_addr w)\<rparr>)"

definition compare_layer :: "gameObject \<Rightarrow> gameObject \<Rightarrow> real" where
  "compare_layer a b = layer a - layer b"

fun insert_by :: "('a \<Rightarrow> 'a \<Rightarrow> real) \<Rightarrow> 'a \<Rightarrow> 'a list \<Rightarrow> 'a list" where
  "insert_by cmp x [] = [x]"
| "insert_by cmp x (y # ys) = (if cmp x y \<le> 0 then x # y # ys else y # insert_by cmp x ys)"

fun Array_sort :: "('a \<Rightarrow> 'a \<Rightarrow> real) \<Rightarrow> 'a list \<Rightarrow> 'a list" where
  "Array_sort cmp [] = []"
| "Array_sort cmp (x # xs) = insert_by cmp x (Array_sort cmp xs)"

definition sort_in_place :: "addr \<Rightarrow> world \<Rightarrow> world" where
  "sort_in_place a w = w\<lparr>arrays := (arrays w)(a := Array_sort compare_layer (arrays w a))\<rparr>"

text \<open>Lines 115 to 128: the filter is set before each object, then its draw hook runs.\<close>

definition draw_object :: "gameObject \<Rightarrow> world \<Rightarrow> world completion" where
  "draw_object g w =
     (let w1 = (if layer g = - 1 then issue (Filter ''blur(2px)'') w
                else issue (Filter ''none'') w)
      in invoke Draw g (draw g) w1)"

definition draw_objects :: "scene \<Rightarrow> world \<Rightarrow> world completion" where
  "draw_objects s w =
     (let (sortedLayers, w1) = spread (gameObjects s) w;
          w2 = sort_in_place sortedLayers w1
      in for_of draw_object (arrays w2 sortedLayers) w2)"

text \<open>
  Lines 129 to 144: restore, then the letterbox bars. The bars are drawn only under
  \<open>usingLogicalCoordinates\<close>, where both bounds have been assigned; \<^verbatim>\<open>fillRect\<close> with an
  undefined argument paints nothing.
\<close>

definition fillRect_opt :: "real option \<Rightarrow> real option \<Rightarrow> real option \<Rightarrow> real option \<Rightarrow> world \<Rightarrow> world" where
  "fillRect_opt x y w h wd =
     (case (x, y, w, h) of
        (Some x', Some y', Some w', Some h') \<Rightarrow> issue (FillRect x' y' w' h') wd
      | _ \<Rightarrow> wd)"

definition draw_letterboxes :: "scene \<Rightarrow> draw_locals \<Rightarrow> world \<Rightarrow> world" where
  "draw_letterboxes s l w =
     (let w1 = issue Restore w;
          w2 = issue (FillStyle ''black'') w1;
          cw = Some (real (width (canvas (ctx w2))));
          ch = Some (real (height (canvas (ctx w2))))
      in if usingLogicalCoordinates l then
           (if js_gt (aspectRatio s) (windowAspectRatio l) then
              fillRect_opt (letterBox2Start l) (Some 0) cw ch
                (fillRect_opt (Some 0) (Some 0) (letterBox1End l) ch w2)
            else
              fillRect_opt (Some 0) (letterBox2Start l) cw ch
                (fillRect_opt (Some 0) (Some 0) cw (letterBox1End l) w2))
         else w2)"

definition Scene_draw :: "camera_transform \<Rightarrow> scene \<Rightarrow> world \<Rightarrow> world completion" where
  "Scene_draw cam s w =
     (let w1 = draw_clear s w;
          (l, w2) = draw_viewport s w1;
          w3 = draw_camera cam w2
      in case draw_objects s w3 of
           Throw e w4 \<Rightarrow> Throw e w4
         | Normal w4 \<Rightarrow> Normal (draw_letterboxes s l w4))"

section \<open>Scene (src/unnamed/part_001)\<close>

text \<open>
  The second Scene class has the same \<^verbatim>\<open>_start\<close>, \<^verbatim>\<open>update\<close>, clearing and object loop. It
  has no \<open>logicalWidth\<close> and \<open>aspectRatio\<close> fields and reads no camera: its draw binds
  \<^verbatim>\<open>logicalWidth = 20\<close> and \<^verbatim>\<open>aspectRatio = 100\<close> locally and branches on the canvas
  being wider than high. Both bounds are assigned on every path.
\<close>

definition draw_viewport_001 :: "world \<Rightarrow> (real \<times> real) \<times> world" where
  "draw_viewport_001 w =
     (let cw = real (width (canvas (ctx w)));
          ch = real (height (canvas (ctx w)));
          logicalWidth = 20;
          aspectRatio = 100
      in if width (canvas (ctx w)) > height (canvas (ctx w)) then
           (let l1 = cw / 2 - (ch / aspectRatio) / 2;
                l2 = cw / 2 + (ch / aspectRatio) / 2;
                w1 = issue (Translate l1 0) w;
                scaleFactor = ch / logicalWidth
            in ((l1, l2), issue (Scale scaleFactor scaleFactor) w1))
         else
           (let l1 = (ch - cw) / 2;
                l2 = (cw + ch) / 2;
                w1 = issue (Translate 0 l1) w;
                scaleFactor = cw / logicalWidth
            in ((l1, l2), issue (Scale scaleFactor scaleFactor) w1)))"

definition draw_letterboxes_001 :: "real \<times> real \<Rightarrow> world \<Rightarrow> world" where
  "draw_letterboxes_001 l w =
     (let w1 = issue Restore w;
          w2 = issue (FillStyle ''black'') w1;
          cw = real (width (canvas (ctx w2)));
          ch = real (height (canvas (ctx w2)))
      in if width (canvas (ctx w2)) > height (canvas (ctx w2)) then
           issue (FillRect (snd l) 0 cw ch) (issue (FillRect 0 0 (fst l) ch) w2)
         else
           issue (FillRect 0 (snd l) cw ch) (issue (FillRect 0 0 cw (fst l)) w2))"

definition Scene_draw_001 :: "scene \<Rightarrow> world \<Rightarrow> world completion" where
  "Scene_draw_001 s w =
     (let w1 = draw_clear s w;
          (l, w2) = draw_viewport_001 w1
      in case draw_objects s w2 of
           Throw e w3 \<Rightarrow> Throw e w3
         | Normal w3 \<Rightarrow> Normal (draw_letterboxes_001 l w3))"

section \<open>Observing a run\<close>

text \<open>
  The events a call added to the trace, and among them the invocations of one kind of
  hook: the object and the context it was handed.
\<close>

definition events_since :: "world \<Rightarrow> world \<Rightarrow> event list" where
  "events_since w w' = drop (length (trace w)) (trace w')"

fun invocations :: "hook_kind \<Rightarrow> event list \<Rightarrow> (gameObject \<times> ctx2d) list" where
  "invocations k [] = []"
| "invocations k (Invoked k' g c # evs) =
     (if k' = k then (g, c) # invocations k evs else invocations k evs)"
| "invocations k (Ctx v # evs) = invocations k evs"
| "invocations k (SceneStart c # evs) = invocations k evs"

text \<open>The calls the Scene itself made on the context, in order.\<close>

fun ctx_calls :: "event list \<Rightarrow> call list" where
  "ctx_calls [] = []"
| "ctx_calls (Ctx v # evs) = v # ctx_calls evs"
| "ctx_calls (SceneStart c # evs) = ctx_calls evs"
| "ctx_calls (Invoked k g c # evs) = ctx_calls evs"

fun is_transform_call :: "call \<Rightarrow> bool" where
  "is_transform_call (Translate x y) = True"
| "is_transform_call (Scale x y) = True"
| "is_transform_call v = False"

fun is_fillRect :: "call \<Rightarrow> bool" where
  "is_fillRect (FillRect x y w h) = True"
| "is_fillRect v = False"

text \<open>An invocation returned: the object has the hook, and on the context it was handed
  the hook returned normally.\<close>

definition returned :: "(gameObject \<Rightarrow> hook option) \<Rightarrow> gameObject \<times> ctx2d \<Rightarrow> bool" where
  "returned sel p = (case sel (fst p) of None \<Rightarrow> False | Some h \<Rightarrow> is_Normal (h (snd p)))"

text \<open>The filter draw sets before the draw hook of an object.\<close>

definition filter_for :: "gameObject \<Rightarrow> string" where
  "filter_for g = (if layer g = - 1 then ''blur(2px)'' else ''none'')"

text \<open>The array the object loop of draw runs on: the sorted copy, which draw stores at
  the next free address.\<close>

definition sorted_copy :: "scene \<Rightarrow> world \<Rightarrow> gameObject list" where
  "sorted_copy s w = Array_sort compare_layer (arrays w (gameObjects s))"

text \<open>
  An exception left the loop over \<open>objs\<close>: the last event is the invocation of the hook of
  an object \<open>g\<close> of the list, that hook threw \<open>e\<close> and left the context \<open>c'\<close>; the hooks
  invoked before it are those of the objects before \<open>g\<close>, and each of them returned; no
  object after \<open>g\<close> was invoked.
\<close>

definition propagated ::
  "hook_kind \<Rightarrow> (gameObject \<Rightarrow> hook option) \<Rightarrow> gameObject list \<Rightarrow> event list \<Rightarrow> string \<Rightarrow> ctx2d \<Rightarrow> bool" where
  "propagated k sel objs evs e c' =
     (\<exists>pre g post h c. objs = pre @ g # post \<and> sel g = Some h \<and> h c = Throw e c'
        \<and> evs \<noteq> [] \<and> last evs = Invoked k g c
        \<and> map fst (invocations k evs) = filter (\<lambda>x. sel x \<noteq> None) pre @ [g]
        \<and> list_all (returned sel) (butlast (invocations k evs)))"


section \<open>Example scenes\<close>

text \<open>Concrete inputs on which the theorems below are instantiated.\<close>

definition identity :: matrix where
  "identity = \<lparr>ma = 1, mb = 0, mc = 0, md = 1, me = 0, mf = 0\<rparr>"

definition fresh_ctx :: "nat \<Rightarrow> nat \<Rightarrow> ctx2d" where
  "fresh_ctx cw ch =
     \<lparr>canvas = \<lparr>width = cw, height = ch\<rparr>,
      cur = \<lparr>transform = identity, fillStyle = ''#000000'', ctx_filter = ''none''\<rparr>,
      stack = [], painted = []\<rparr>"

definition example_world :: "nat \<Rightarrow> nat \<Rightarrow> gameObject list \<Rightarrow> world" where
  "example_world cw ch gs =
     \<lparr>ctx = fresh_ctx cw ch, arrays = (\<lambda>a. if a = 0 then gs else []), next_addr = 1, trace = []\<rparr>"

definition example_scene :: "real \<Rightarrow> real \<Rightarrow> scene" where
  "example_scene lw ar =
     \<lparr>backgroundColor = ''white'', gameObjects = 0, hasStarted = False,
      logicalWidth = lw, aspectRatio = ar, start_hook = None\<rparr>"

definition camera_at :: "real \<Rightarrow> real \<Rightarrow> camera_transform" where
  "camera_at px py = \<lparr>transform_x = px, transform_y = py, scaleX = 1, scaleY = 1\<rparr>"

text \<open>Hooks: one that paints a unit square, one that calls \<^verbatim>\<open>ctx.save()\<close> and returns,
  one that throws.\<close>

definition paint_hook :: hook where
  "paint_hook c = Normal (apply_call (FillRect 0 0 1 1) c)"

definition save_hook :: hook where
  "save_hook c = Normal (apply_call Save c)"

definition throwing_hook :: hook where
  "throwing_hook c = Throw ''boom'' c"

definition object_on :: "real \<Rightarrow> hook option \<Rightarrow> gameObject" where
  "object_on l h = \<lparr>layer = l, start = h, update = h, draw = h\<rparr>"

definition hooked_scene :: scene where
  "hooked_scene = (example_scene 20 1)\<lparr>start_hook := Some paint_hook\<rparr>"

definition demo_objects :: "gameObject list" where
  "demo_objects = [object_on 0 (Some paint_hook), object_on (- 1) None, object_on 2 (Some paint_hook)]"

definition unsorted_objects :: "gameObject list" where
  "unsorted_objects = [object_on 2 (Some paint_hook), object_on (- 1) (Some paint_hook), object_on 0 (Some paint_hook)]"

definition faulty_objects :: "gameObject list" where
  "faulty_objects = [object_on 0 (Some paint_hook), object_on 1 (Some throwing_hook), object_on 2 (Some paint_hook)]"

section \<open>Basic facts\<close>

lemma trace_issue [simp]: "trace (issue k w) = trace w @ [Ctx k]"
  and arrays_issue [simp]: "arrays (issue k w) = arrays w"
  and next_addr_issue [simp]: "next_addr (issue k w) = next_addr w"
  and ctx_issue [simp]: "ctx (issue k w) = apply_call k (ctx w)"
  by (simp_all add: issue_def)

lemma canvas_apply_call [simp]: "canvas (apply_call k c) = canvas c"
  by (cases k) (simp_all split: list.splits)

lemma invocations_append [simp]:
  "invocations k (xs @ ys) = invocations k xs @ invocations k ys"
  by (induction k xs rule: invocations.induct) simp_all

lemma ctx_calls_append [simp]: "ctx_calls (xs @ ys) = ctx_calls xs @ ctx_calls ys"
  by (induction xs rule: ctx_calls.induct) simp_all

lemma events_since_append: "trace w' = trace w @ evs \<Longrightarrow> events_since w w' = evs"
  by (simp add: events_since_def)

lemma fold_issue [simp]:
  "trace (fold issue ks w) = trace w @ map Ctx ks"
  "arrays (fold issue ks w) = arrays w"
  "next_addr (fold issue ks w) = next_addr w"
  by (induction ks arbitrary: w) simp_all

lemma ctx_fold_issue: "ctx (fold issue ks w) = fold apply_call ks (ctx w)"
  by (induction ks arbitrary: w) simp_all

lemma ctx_calls_map_Ctx [simp]: "ctx_calls (map Ctx ks) = ks"
  by (induction ks) simp_all

lemma invocations_map_Ctx [simp]: "invocations k (map Ctx ks) = []"
  by (induction ks) simp_all

lemma returnedI: "sel g = Some h \<Longrightarrow> h c = Normal c' \<Longrightarrow> returned sel (g, c)"
  by (simp add: returned_def)

section \<open>One hook call\<close>

lemma call_hook_Normal:
  assumes "call_hook ev f w = Normal w'"
  shows "(f = None \<and> w' = w) \<or>
         (\<exists>h c'. f = Some h \<and> h (ctx w) = Normal c' \<and>
                  w' = w\<lparr>ctx := c', trace := trace w @ [ev (ctx w)]\<rparr>)"
  using assms by (cases f) (auto split: completion.splits)

lemma call_hook_Throw:
  assumes "call_hook ev f w = Throw e w'"
  shows "\<exists>h c'. f = Some h \<and> h (ctx w) = Throw e c' \<and>
                  w' = w\<lparr>ctx := c', trace := trace w @ [ev (ctx w)]\<rparr>"
  using assms by (cases f) (auto split: completion.splits)

section \<open>Loops over hooks\<close>

lemma for_of_Normal:
  assumes body: "\<And>g w. body g w = invoke k g (sel g) (fold issue (cs g) w)"
    and entry: "\<And>g w. P g (ctx (fold issue (cs g) w))"
    and run: "for_of body objs w = Normal w'"
  shows "\<exists>evs. trace w' = trace w @ evs
           \<and> map fst (invocations k evs) = filter (\<lambda>g. sel g \<noteq> None) objs
           \<and> ctx_calls evs = concat (map cs objs)
           \<and> list_all (returned sel) (invocations k evs)
           \<and> list_all (\<lambda>p. P (fst p) (snd p)) (invocations k evs)
           \<and> arrays w' = arrays w \<and> next_addr w' = next_addr w"
  using run
proof (induction objs arbitrary: w)
  case Nil
  then show ?case by simp
next
  case (Cons g gs)
  let ?w0 = "fold issue (cs g) w"
  from Cons.prems obtain w1 where b: "body g w = Normal w1" and r: "for_of body gs w1 = Normal w'"
    by (auto split: completion.splits)
  from Cons.IH [OF r] obtain evs where evs:
    "trace w' = trace w1 @ evs"
    "map fst (invocations k evs) = filter (\<lambda>g. sel g \<noteq> None) gs"
    "ctx_calls evs = concat (map cs gs)"
    "list_all (returned sel) (invocations k evs)"
    "list_all (\<lambda>p. P (fst p) (snd p)) (invocations k evs)"
    "arrays w' = arrays w1" "next_addr w' = next_addr w1"
    by blast
  from b have "call_hook (Invoked k g) (sel g) ?w0 = Normal w1"
    by (simp add: body invoke_def)
  from call_hook_Normal [OF this] show ?case
  proof (elim disjE conjE exE)
    assume "sel g = None" "w1 = ?w0"
    with evs show ?thesis
      by (intro exI [of _ "map Ctx (cs g) @ evs"]) simp
  next
    fix h c'
    assume "sel g = Some h" "h (ctx ?w0) = Normal c'"
      "w1 = ?w0\<lparr>ctx := c', trace := trace ?w0 @ [Invoked k g (ctx ?w0)]\<rparr>"
    with evs entry [of g w] show ?thesis
      by (intro exI [of _ "map Ctx (cs g) @ Invoked k g (ctx ?w0) # evs"])
         (simp add: returnedI)
  qed
qed

lemma for_of_Throw:
  assumes body: "\<And>g w. body g w = invoke k g (sel g) (fold issue (cs g) w)"
    and entry: "\<And>g w. P g (ctx (fold issue (cs g) w))"
    and run: "for_of body objs w = Throw e w'"
  shows "\<exists>pre g post h c evs. objs = pre @ g # post \<and> sel g = Some h \<and> h c = Throw e (ctx w')
           \<and> trace w' = trace w @ evs @ [Invoked k g c]
           \<and> map fst (invocations k evs) = filter (\<lambda>g. sel g \<noteq> None) pre
           \<and> ctx_calls evs = concat (map cs (pre @ [g]))
           \<and> list_all (returned sel) (invocations k evs)
           \<and> list_all (\<lambda>p. P (fst p) (snd p)) (invocations k evs) \<and> P g c
           \<and> arrays w' = arrays w \<and> next_addr w' = next_addr w"
  using run
proof (induction objs arbitrary: w)
  case Nil
  then show ?case by simp
next
  case (Cons g gs)
  let ?w0 = "fold issue (cs g) w"
  show ?case
  proof (cases "body g w")
    case (Throw e1 w1)
    with Cons.prems have eq: "e1 = e" "w1 = w'" by simp_all
    from Throw have "call_hook (Invoked k g) (sel g) ?w0 = Throw e w'"
      by (simp add: body invoke_def eq)
    from call_hook_Throw [OF this] obtain h c' where h:
      "sel g = Some h" "h (ctx ?w0) = Throw e c'"
      "w' = ?w0\<lparr>ctx := c', trace := trace ?w0 @ [Invoked k g (ctx ?w0)]\<rparr>"
      by blast
    show ?thesis
      apply (rule exI [of _ "[]"], rule exI [of _ g], rule exI [of _ gs], rule exI [of _ h],
          rule exI [of _ "ctx ?w0"], rule exI [of _ "map Ctx (cs g)"])
      using h entry [of g w] by simp
  next
    case (Normal w1)
    with Cons.prems have r: "for_of body gs w1 = Throw e w'" by simp
    from Cons.IH [OF r] obtain pre g' post h c evs where IH:
      "gs = pre @ g' # post" "sel g' = Some h" "h c = Throw e (ctx w')"
      "trace w' = trace w1 @ evs @ [Invoked k g' c]"
      "map fst (invocations k evs) = filter (\<lambda>g. sel g \<noteq> None) pre"
      "ctx_calls evs = concat (map cs (pre @ [g']))"
      "list_all (returned sel) (invocations k evs)"
      "list_all (\<lambda>p. P (fst p) (snd p)) (invocations k evs)" "P g' c"
      "arrays w' = arrays w1" "next_addr w' = next_addr w1"
      by blast
    from Normal have "call_hook (Invoked k g) (sel g) ?w0 = Normal w1"
      by (simp add: body invoke_def)
    from call_hook_Normal [OF this] show ?thesis
    proof (elim disjE conjE exE)
      assume a: "sel g = None" "w1 = ?w0"
      show ?thesis
        apply (rule exI [of _ "g # pre"], rule exI [of _ g'], rule exI [of _ post],
            rule exI [of _ h], rule exI [of _ c], rule exI [of _ "map Ctx (cs g) @ evs"])
        using IH a by simp
    next
      fix h1 c'
      assume a: "sel g = Some h1" "h1 (ctx ?w0) = Normal c'"
        "w1 = ?w0\<lparr>ctx := c', trace := trace ?w0 @ [Invoked k g (ctx ?w0)]\<rparr>"
      show ?thesis
        apply (rule exI [of _ "g # pre"], rule exI [of _ g'], rule exI [of _ post],
            rule exI [of _ h], rule exI [of _ c],
            rule exI [of _ "map Ctx (cs g) @ Invoked k g (ctx ?w0) # evs"])
        using IH a entry [of g w] by (simp add: returnedI)
    qed
  qed
qed

text \<open>An invariant of the context that the calls of the body and the hooks keep.\<close>

lemma for_of_invariant:
  assumes body: "\<And>g w. body g w = invoke k g (sel g) (fold issue (cs g) w)"
    and calls: "\<And>g c. g \<in> set objs \<Longrightarrow> Inv c \<Longrightarrow> Inv (fold apply_call (cs g) c)"
    and hooks: "\<And>g h c c'. g \<in> set objs \<Longrightarrow> sel g = Some h \<Longrightarrow> Inv c \<Longrightarrow> h c = Normal c' \<Longrightarrow> Inv c'"
    and init: "Inv (ctx w)"
    and run: "for_of body objs w = Normal w'"
  shows "Inv (ctx w')"
  using calls hooks init run
proof (induction objs arbitrary: w)
  case Nil
  then show ?case by simp
next
  case (Cons g gs)
  let ?w0 = "fold issue (cs g) w"
  have ctx0: "ctx ?w0 = fold apply_call (cs g) (ctx w)"
    by (rule ctx_fold_issue)
  from Cons.prems(4) obtain w1 where b: "body g w = Normal w1" and r: "for_of body gs w1 = Normal w'"
    by (auto split: completion.splits)
  have i0: "Inv (ctx ?w0)"
    unfolding ctx0 using Cons.prems(1) [of g] Cons.prems(3) by simp
  from b have "call_hook (Invoked k g) (sel g) ?w0 = Normal w1"
    by (simp add: body invoke_def)
  from call_hook_Normal [OF this] have "Inv (ctx w1)"
    using i0 Cons.prems(2) [of g] by auto
  with Cons.IH [of w1] Cons.prems(1,2) r show ?case
    by (metis list.set_intros(2))
qed


section \<open>The sort\<close>

lemma insert_by_compare_layer: "insert_by compare_layer x ys = insort_key layer x ys"
  by (induction ys) (simp_all add: compare_layer_def)

lemma Array_sort_compare_layer: "Array_sort compare_layer xs = sort_key layer xs"
  by (induction xs) (simp_all add: insert_by_compare_layer)

lemma sorted_Array_sort: "sorted (map layer (Array_sort compare_layer xs))"
  by (simp add: Array_sort_compare_layer)

lemma mset_Array_sort: "mset (Array_sort compare_layer xs) = mset xs"
  by (simp add: Array_sort_compare_layer)

lemma set_Array_sort: "set (Array_sort compare_layer xs) = set xs"
  by (simp add: Array_sort_compare_layer)

section \<open>The phases of draw\<close>

lemma draw_clear_eq:
  "draw_clear s w =
     issue Save (issue (FillRect 0 0 (real (width (canvas (ctx w)))) (real (height (canvas (ctx w)))))
       (issue (FillStyle (backgroundColor s)) w))"
  by (simp add: draw_clear_def Let_def)

lemma draw_viewport_off:
  assumes "logicalWidth s \<le> 0 \<or> aspectRatio s \<le> 0"
  shows "snd (draw_viewport s w) = w"
    and "usingLogicalCoordinates (fst (draw_viewport s w)) = False"
  using assms by (auto simp: draw_viewport_def Let_def)

lemma draw_viewport_left_right:
  assumes "0 < logicalWidth s" "0 < aspectRatio s"
    and "js_gt (aspectRatio s) (js_div (height (canvas (ctx w))) (width (canvas (ctx w))))"
  shows "draw_viewport s w =
     (\<lparr>windowAspectRatio = js_div (height (canvas (ctx w))) (width (canvas (ctx w))),
       letterBox1End = Some (real (width (canvas (ctx w))) / 2 - (real (height (canvas (ctx w))) / aspectRatio s) / 2),
       letterBox2Start = Some (real (width (canvas (ctx w))) / 2 + (real (height (canvas (ctx w))) / aspectRatio s) / 2),
       usingLogicalCoordinates = True\<rparr>,
      issue (Scale (real (height (canvas (ctx w))) / logicalWidth s) (real (height (canvas (ctx w))) / logicalWidth s))
        (issue (Translate (real (width (canvas (ctx w))) / 2 - (real (height (canvas (ctx w))) / aspectRatio s) / 2) 0) w))"
  using assms by (simp add: draw_viewport_def Let_def)

lemma draw_viewport_top_bottom:
  assumes "0 < logicalWidth s" "0 < aspectRatio s"
    and "\<not> js_gt (aspectRatio s) (js_div (height (canvas (ctx w))) (width (canvas (ctx w))))"
  shows "draw_viewport s w =
     (\<lparr>windowAspectRatio = js_div (height (canvas (ctx w))) (width (canvas (ctx w))),
       letterBox1End = Some (real (height (canvas (ctx w))) / 2 - (real (width (canvas (ctx w))) * aspectRatio s) / 2),
       letterBox2Start = Some ((real (width (canvas (ctx w))) * aspectRatio s) / 2 + real (height (canvas (ctx w))) / 2),
       usingLogicalCoordinates = True\<rparr>,
      issue (Scale (real (width (canvas (ctx w))) / (logicalWidth s / aspectRatio s))
                   (real (width (canvas (ctx w))) / (logicalWidth s / aspectRatio s)))
        (issue (Translate 0 (real (height (canvas (ctx w))) / 2 - (real (width (canvas (ctx w))) * aspectRatio s) / 2)) w))"
  using assms by (simp add: draw_viewport_def Let_def)

lemma js_le_not_gt: "js_le v n \<Longrightarrow> \<not> js_gt v n"
  by (cases n) simp_all

lemma draw_object_body:
  "draw_object g w = invoke Draw g (draw g) (fold issue ((\<lambda>g. [Filter (filter_for g)]) g) w)"
  by (simp add: draw_object_def filter_for_def)

lemma draw_object_entry:
  "ctx_filter (cur (ctx (fold issue ((\<lambda>g. [Filter (filter_for g)]) g) w))) = filter_for g"
  by simp

lemma draw_objects_eq:
  "draw_objects s w =
     for_of draw_object (sorted_copy s w)
       (w\<lparr>next_addr := Suc (next_addr w), arrays := (arrays w)(next_addr w := sorted_copy s w)\<rparr>)"
  by (simp add: draw_objects_def spread_def sort_in_place_def sorted_copy_def Let_def)

lemma draw_objects_Normal:
  assumes "draw_objects s w = Normal w'"
  shows "\<exists>evs. trace w' = trace w @ evs
           \<and> map fst (invocations Draw evs) = filter (\<lambda>g. draw g \<noteq> None) (sorted_copy s w)
           \<and> ctx_calls evs = map (\<lambda>g. Filter (filter_for g)) (sorted_copy s w)
           \<and> list_all (returned draw) (invocations Draw evs)
           \<and> list_all (\<lambda>p. ctx_filter (cur (snd p)) = filter_for (fst p)) (invocations Draw evs)
           \<and> arrays w' = (arrays w)(next_addr w := sorted_copy s w)"
proof -
  let ?w = "w\<lparr>next_addr := Suc (next_addr w), arrays := (arrays w)(next_addr w := sorted_copy s w)\<rparr>"
  from assms have run: "for_of draw_object (sorted_copy s w) ?w = Normal w'"
    by (simp add: draw_objects_eq)
  from for_of_Normal [of draw_object Draw draw "\<lambda>g. [Filter (filter_for g)]"
      "\<lambda>g c. ctx_filter (cur c) = filter_for g", OF draw_object_body draw_object_entry run]
  obtain evs where "trace w' = trace ?w @ evs"
    "map fst (invocations Draw evs) = filter (\<lambda>g. draw g \<noteq> None) (sorted_copy s w)"
    "ctx_calls evs = concat (map (\<lambda>g. [Filter (filter_for g)]) (sorted_copy s w))"
    "list_all (returned draw) (invocations Draw evs)"
    "list_all (\<lambda>p. ctx_filter (cur (snd p)) = filter_for (fst p)) (invocations Draw evs)"
    "arrays w' = arrays ?w"
    by blast
  moreover have "concat (map (\<lambda>g. [Filter (filter_for g)]) xs) = map (\<lambda>g. Filter (filter_for g)) xs" for xs
    by (induction xs) simp_all
  ultimately show ?thesis by (intro exI [of _ evs]) simp
qed

lemma draw_objects_Throw:
  assumes "draw_objects s w = Throw e w'"
  shows "\<exists>pre g post h c evs. sorted_copy s w = pre @ g # post \<and> draw g = Some h \<and> h c = Throw e (ctx w')
           \<and> trace w' = trace w @ evs @ [Invoked Draw g c]
           \<and> map fst (invocations Draw evs) = filter (\<lambda>g. draw g \<noteq> None) pre
           \<and> ctx_calls evs = map (\<lambda>g. Filter (filter_for g)) (pre @ [g])
           \<and> list_all (returned draw) (invocations Draw evs)
           \<and> list_all (\<lambda>p. ctx_filter (cur (snd p)) = filter_for (fst p)) (invocations Draw evs)
           \<and> ctx_filter (cur c) = filter_for g
           \<and> arrays w' = (arrays w)(next_addr w := sorted_copy s w)"
proof -
  let ?w = "w\<lparr>next_addr := Suc (next_addr w), arrays := (arrays w)(next_addr w := sorted_copy s w)\<rparr>"
  from assms have run: "for_of draw_object (sorted_copy s w) ?w = Throw e w'"
    by (simp add: draw_objects_eq)
  from for_of_Throw [of draw_object Draw draw "\<lambda>g. [Filter (filter_for g)]"
      "\<lambda>g c. ctx_filter (cur c) = filter_for g", OF draw_object_body draw_object_entry run]
  obtain pre g post h c evs where "sorted_copy s w = pre @ g # post" "draw g = Some h" "h c = Throw e (ctx w')"
    "trace w' = trace ?w @ evs @ [Invoked Draw g c]"
    "map fst (invocations Draw evs) = filter (\<lambda>g. draw g \<noteq> None) pre"
    "ctx_calls evs = concat (map (\<lambda>g. [Filter (filter_for g)]) (pre @ [g]))"
    "list_all (returned draw) (invocations Draw evs)"
    "list_all (\<lambda>p. ctx_filter (cur (snd p)) = filter_for (fst p)) (invocations Draw evs)"
    "ctx_filter (cur c) = filter_for g"
    "arrays w' = arrays ?w"
    by blast
  moreover have "concat (map (\<lambda>g. [Filter (filter_for g)]) xs) = map (\<lambda>g. Filter (filter_for g)) xs" for xs
    by (induction xs) simp_all
  ultimately show ?thesis
    apply (intro exI [of _ pre], intro exI [of _ g], intro exI [of _ post], intro exI [of _ h],
        intro exI [of _ c], intro exI [of _ evs])
    by simp
qed


section \<open>draw as a sequence of calls around the object loop\<close>

lemma Scene_draw_off:
  assumes "logicalWidth s \<le> 0 \<or> aspectRatio s \<le> 0"
  shows "Scene_draw cam s w =
     (case draw_objects s (fold issue
        [FillStyle (backgroundColor s),
         FillRect 0 0 (real (width (canvas (ctx w)))) (real (height (canvas (ctx w)))),
         Save,
         Scale (scaleX cam) (scaleY cam),
         Translate (- transform_x cam) (- transform_y cam)] w) of
        Throw e w4 \<Rightarrow> Throw e w4
      | Normal w4 \<Rightarrow> Normal (fold issue [Restore, FillStyle ''black''] w4))"
  using assms
  by (auto simp: Scene_draw_def draw_clear_def draw_viewport_def draw_camera_def
      draw_letterboxes_def Let_def simp del: apply_call.simps split: completion.splits)

lemma Scene_draw_left_right:
  assumes "0 < logicalWidth s" "0 < aspectRatio s"
    and "js_gt (aspectRatio s) (js_div (height (canvas (ctx w))) (width (canvas (ctx w))))"
  shows "Scene_draw cam s w =
     (case draw_objects s (fold issue
        [FillStyle (backgroundColor s),
         FillRect 0 0 (real (width (canvas (ctx w)))) (real (height (canvas (ctx w)))),
         Save,
         Translate (real (width (canvas (ctx w))) / 2 - (real (height (canvas (ctx w))) / aspectRatio s) / 2) 0,
         Scale (real (height (canvas (ctx w))) / logicalWidth s) (real (height (canvas (ctx w))) / logicalWidth s),
         Scale (scaleX cam) (scaleY cam),
         Translate (- transform_x cam) (- transform_y cam)] w) of
        Throw e w4 \<Rightarrow> Throw e w4
      | Normal w4 \<Rightarrow> Normal (fold issue
          [Restore, FillStyle ''black'',
           FillRect 0 0 (real (width (canvas (ctx w))) / 2 - (real (height (canvas (ctx w))) / aspectRatio s) / 2)
             (real (height (canvas (ctx w4)))),
           FillRect (real (width (canvas (ctx w))) / 2 + (real (height (canvas (ctx w))) / aspectRatio s) / 2) 0
             (real (width (canvas (ctx w4)))) (real (height (canvas (ctx w4))))] w4))"
  using assms
  by (simp add: Scene_draw_def draw_clear_def draw_viewport_def draw_camera_def
      draw_letterboxes_def fillRect_opt_def Let_def del: apply_call.simps split: completion.splits)

lemma Scene_draw_top_bottom:
  assumes "0 < logicalWidth s" "0 < aspectRatio s"
    and "\<not> js_gt (aspectRatio s) (js_div (height (canvas (ctx w))) (width (canvas (ctx w))))"
  shows "Scene_draw cam s w =
     (case draw_objects s (fold issue
        [FillStyle (backgroundColor s),
         FillRect 0 0 (real (width (canvas (ctx w)))) (real (height (canvas (ctx w)))),
         Save,
         Translate 0 (real (height (canvas (ctx w))) / 2 - (real (width (canvas (ctx w))) * aspectRatio s) / 2),
         Scale (real (width (canvas (ctx w))) / (logicalWidth s / aspectRatio s))
               (real (width (canvas (ctx w))) / (logicalWidth s / aspectRatio s)),
         Scale (scaleX cam) (scaleY cam),
         Translate (- transform_x cam) (- transform_y cam)] w) of
        Throw e w4 \<Rightarrow> Throw e w4
      | Normal w4 \<Rightarrow> Normal (fold issue
          [Restore, FillStyle ''black'',
           FillRect 0 0 (real (width (canvas (ctx w4))))
             (real (height (canvas (ctx w))) / 2 - (real (width (canvas (ctx w))) * aspectRatio s) / 2),
           FillRect 0 ((real (width (canvas (ctx w))) * aspectRatio s) / 2 + real (height (canvas (ctx w))) / 2)
             (real (width (canvas (ctx w4)))) (real (height (canvas (ctx w4))))] w4))"
  using assms
  by (simp add: Scene_draw_def draw_clear_def draw_viewport_def draw_camera_def
      draw_letterboxes_def fillRect_opt_def Let_def del: apply_call.simps split: completion.splits)

text \<open>The events of a draw: the calls before the loop, the loop, the calls after it.\<close>

lemma sorted_copy_fold_issue [simp]: "sorted_copy s (fold issue ks w) = sorted_copy s w"
  by (simp add: sorted_copy_def)

lemma draw_shape_Normal:
  assumes shape: "Scene_draw cam s w =
      (case draw_objects s (fold issue pro w) of
         Throw e w4 \<Rightarrow> Throw e w4 | Normal w4 \<Rightarrow> Normal (fold issue (epi w4) w4))"
    and run: "Scene_draw cam s w = Normal w'"
  shows "\<exists>evs w4. draw_objects s (fold issue pro w) = Normal w4
           \<and> w' = fold issue (epi w4) w4
           \<and> events_since w w' = map Ctx pro @ evs @ map Ctx (epi w4)
           \<and> trace w4 = trace w @ map Ctx pro @ evs
           \<and> map fst (invocations Draw evs) = filter (\<lambda>g. draw g \<noteq> None) (sorted_copy s w)
           \<and> ctx_calls evs = map (\<lambda>g. Filter (filter_for g)) (sorted_copy s w)
           \<and> list_all (returned draw) (invocations Draw evs)
           \<and> list_all (\<lambda>p. ctx_filter (cur (snd p)) = filter_for (fst p)) (invocations Draw evs)
           \<and> arrays w' = (arrays w)(next_addr w := sorted_copy s w)"
proof -
  from shape run obtain w4 where w4: "draw_objects s (fold issue pro w) = Normal w4"
    and w': "w' = fold issue (epi w4) w4"
    by (auto split: completion.splits)
  from draw_objects_Normal [OF w4] obtain evs where evs:
    "trace w4 = trace (fold issue pro w) @ evs"
    "map fst (invocations Draw evs) = filter (\<lambda>g. draw g \<noteq> None) (sorted_copy s w)"
    "ctx_calls evs = map (\<lambda>g. Filter (filter_for g)) (sorted_copy s w)"
    "list_all (returned draw) (invocations Draw evs)"
    "list_all (\<lambda>p. ctx_filter (cur (snd p)) = filter_for (fst p)) (invocations Draw evs)"
    "arrays w4 = (arrays w)(next_addr w := sorted_copy s w)"
    by auto
  have "events_since w w' = map Ctx pro @ evs @ map Ctx (epi w4)"
    by (rule events_since_append) (simp add: w' evs)
  with w4 w' evs show ?thesis
    by (intro exI [of _ evs] exI [of _ w4]) simp
qed

lemma draw_shape_Throw:
  assumes shape: "Scene_draw cam s w =
      (case draw_objects s (fold issue pro w) of
         Throw e w4 \<Rightarrow> Throw e w4 | Normal w4 \<Rightarrow> Normal (fold issue (epi w4) w4))"
    and run: "Scene_draw cam s w = Throw e w'"
  shows "\<exists>pre g post h c evs. sorted_copy s w = pre @ g # post \<and> draw g = Some h
           \<and> h c = Throw e (ctx w')
           \<and> events_since w w' = map Ctx pro @ evs @ [Invoked Draw g c]
           \<and> map fst (invocations Draw evs) = filter (\<lambda>g. draw g \<noteq> None) pre
           \<and> ctx_calls evs = map (\<lambda>g. Filter (filter_for g)) (pre @ [g])
           \<and> list_all (returned draw) (invocations Draw evs)
           \<and> list_all (\<lambda>p. ctx_filter (cur (snd p)) = filter_for (fst p)) (invocations Draw evs)
           \<and> ctx_filter (cur c) = filter_for g
           \<and> arrays w' = (arrays w)(next_addr w := sorted_copy s w)"
proof -
  from shape run have w4: "draw_objects s (fold issue pro w) = Throw e w'"
    by (auto split: completion.splits)
  from draw_objects_Throw [OF w4] obtain pre g post h c evs where evs:
    "sorted_copy s w = pre @ g # post" "draw g = Some h" "h c = Throw e (ctx w')"
    "trace w' = trace (fold issue pro w) @ evs @ [Invoked Draw g c]"
    "map fst (invocations Draw evs) = filter (\<lambda>g. draw g \<noteq> None) pre"
    "ctx_calls evs = map (\<lambda>g. Filter (filter_for g)) (pre @ [g])"
    "list_all (returned draw) (invocations Draw evs)"
    "list_all (\<lambda>p. ctx_filter (cur (snd p)) = filter_for (fst p)) (invocations Draw evs)"
    "ctx_filter (cur c) = filter_for g"
    "arrays w' = (arrays w)(next_addr w := sorted_copy s w)"
    by auto
  have "events_since w w' = map Ctx pro @ evs @ [Invoked Draw g c]"
    by (rule events_since_append) (simp add: evs)
  with evs show ?thesis
    apply (intro exI [of _ pre], intro exI [of _ g], intro exI [of _ post], intro exI [of _ h],
        intro exI [of _ c], intro exI [of _ evs])
    by simp
qed

lemma canvas_fold_issue [simp]: "canvas (ctx (fold issue ks w)) = canvas (ctx w)"
  by (induction ks arbitrary: w) simp_all

lemma no_transform_in_filters [simp]:
  "filter is_transform_call (map (\<lambda>g. Filter (filter_for g)) gs) = []"
  by (induction gs) simp_all

lemma no_fillRect_in_filters [simp]:
  "filter is_fillRect (map (\<lambda>g. Filter (filter_for g)) gs) = []"
  by (induction gs) simp_all

lemma Normal_state_of: "is_Normal r \<Longrightarrow> r = Normal (state_of r)"
  by (cases r) simp_all

lemma Throw_state_of: "\<not> is_Normal r \<Longrightarrow> \<exists>e. r = Throw e (state_of r)"
  by (cases r) simp_all

text \<open>The calls of a draw of a given shape, whatever the outcome.\<close>

lemma draw_shape_calls:
  assumes shape: "Scene_draw cam s w =
      (case draw_objects s (fold issue pro w) of
         Throw e w4 \<Rightarrow> Throw e w4 | Normal w4 \<Rightarrow> Normal (fold issue (epi w4) w4))"
  shows "\<exists>gs. ctx_calls (events_since w (state_of (Scene_draw cam s w)))
            = pro @ map (\<lambda>g. Filter (filter_for g)) gs
              @ (if is_Normal (Scene_draw cam s w) then epi (state_of (draw_objects s (fold issue pro w))) else [])
          \<and> (is_Normal (Scene_draw cam s w) \<longrightarrow> gs = sorted_copy s w)"
proof (cases "is_Normal (Scene_draw cam s w)")
  case True
  then have run: "Scene_draw cam s w = Normal (state_of (Scene_draw cam s w))"
    by (rule Normal_state_of)
  from draw_shape_Normal [OF shape run] obtain evs w4 where
    "draw_objects s (fold issue pro w) = Normal w4"
    "events_since w (state_of (Scene_draw cam s w)) = map Ctx pro @ evs @ map Ctx (epi w4)"
    "ctx_calls evs = map (\<lambda>g. Filter (filter_for g)) (sorted_copy s w)"
    by blast
  with True show ?thesis
    by (intro exI [of _ "sorted_copy s w"]) simp
next
  case False
  then obtain e where run: "Scene_draw cam s w = Throw e (state_of (Scene_draw cam s w))"
    using Throw_state_of by blast
  from draw_shape_Throw [OF shape run] obtain pre g c evs where
    "events_since w (state_of (Scene_draw cam s w)) = map Ctx pro @ evs @ [Invoked Draw g c]"
    "ctx_calls evs = map (\<lambda>g. Filter (filter_for g)) (pre @ [g])"
    by blast
  with False show ?thesis
    by (intro exI [of _ "pre @ [g]"]) simp
qed

lemma canvas_draw_clear [simp]: "canvas (ctx (draw_clear s w)) = canvas (ctx w)"
  by (simp add: draw_clear_eq del: apply_call.simps)

lemma trace_draw_clear:
  "trace (draw_clear s w) = trace w @ map Ctx
     [FillStyle (backgroundColor s),
      FillRect 0 0 (real (width (canvas (ctx w)))) (real (height (canvas (ctx w)))), Save]"
  by (simp add: draw_clear_eq del: apply_call.simps)

lemma transform_draw_clear [simp]: "transform (cur (ctx (draw_clear s w))) = transform (cur (ctx w))"
  by (simp add: draw_clear_eq)

lemma transform_draw_camera:
  "transform (cur (ctx (draw_camera cam w))) =
     translate (- transform_x cam) (- transform_y cam) (scale (scaleX cam) (scaleY cam) (transform (cur (ctx w))))"
  by (simp add: draw_camera_def)

section \<open>Save and restore\<close>

lemma stack_transform_calls:
  "list_all is_transform_call ks \<Longrightarrow> stack (fold apply_call ks c) = stack c"
proof (induction ks arbitrary: c)
  case Nil
  then show ?case by simp
next
  case (Cons k ks)
  then show ?case by (cases k) simp_all
qed

lemma state_fillRects:
  "list_all is_fillRect ks \<Longrightarrow>
     stack (fold apply_call ks c) = stack c \<and> cur (fold apply_call ks c) = cur c"
proof (induction ks arbitrary: c)
  case Nil
  then show ?case by simp
next
  case (Cons k ks)
  then show ?case by (cases k) simp_all
qed

lemma stack_after_objects:
  assumes balanced: "\<forall>g \<in> set (arrays w (gameObjects s)).
      \<forall>h c c'. draw g = Some h \<longrightarrow> h c = Normal c' \<longrightarrow> stack c' = stack c"
    and run: "draw_objects s w = Normal w'"
  shows "stack (ctx w') = stack (ctx w)"
proof -
  let ?w = "w\<lparr>next_addr := Suc (next_addr w), arrays := (arrays w)(next_addr w := sorted_copy s w)\<rparr>"
  from run have loop: "for_of draw_object (sorted_copy s w) ?w = Normal w'"
    by (simp add: draw_objects_eq)
  have mem: "set (sorted_copy s w) = set (arrays w (gameObjects s))"
    by (simp add: sorted_copy_def set_Array_sort)
  have "stack (ctx w') = stack (ctx w)"
  proof (rule for_of_invariant [where Inv = "\<lambda>c. stack c = stack (ctx w)"
        and body = draw_object and k = Draw and sel = draw
        and cs = "\<lambda>g. [Filter (filter_for g)]", OF draw_object_body _ _ _ loop])
    show "stack (fold apply_call [Filter (filter_for g)] c) = stack (ctx w)"
      if "stack c = stack (ctx w)" for g c
      using that by simp
    show "stack c' = stack (ctx w)"
      if "g \<in> set (sorted_copy s w)" "draw g = Some h" "stack c = stack (ctx w)" "h c = Normal c'"
      for g h c c'
      using that balanced unfolding mem by metis
    show "stack (ctx ?w) = stack (ctx w)" by simp
  qed
  then show ?thesis .
qed

lemma restored_by_shape:
  assumes shape: "Scene_draw cam s w =
      (case draw_objects s (fold issue ([FillStyle v, FillRect x y a b, Save] @ tr) w) of
         Throw e w4 \<Rightarrow> Throw e w4
       | Normal w4 \<Rightarrow> Normal (fold issue (Restore # FillStyle ''black'' # bars w4) w4))"
    and tr: "list_all is_transform_call tr"
    and bars: "\<And>w4. list_all is_fillRect (bars w4)"
    and balanced: "\<forall>g \<in> set (arrays w (gameObjects s)).
      \<forall>h c c'. draw g = Some h \<longrightarrow> h c = Normal c' \<longrightarrow> stack c' = stack c"
    and run: "Scene_draw cam s w = Normal w'"
  shows "cur (ctx w') = (cur (ctx w))\<lparr>fillStyle := ''black''\<rparr> \<and> stack (ctx w') = stack (ctx w)"
proof -
  let ?w3 = "fold issue ([FillStyle v, FillRect x y a b, Save] @ tr) w"
  from shape run obtain w4 where w4: "draw_objects s ?w3 = Normal w4"
    and w': "w' = fold issue (Restore # FillStyle ''black'' # bars w4) w4"
    by (auto split: completion.splits)
  have "stack (ctx ?w3) = (cur (ctx w))\<lparr>fillStyle := v\<rparr> # stack (ctx w)"
    by (simp add: ctx_fold_issue stack_transform_calls [OF tr])
  moreover have "stack (ctx w4) = stack (ctx ?w3)"
    by (rule stack_after_objects [OF _ w4]) (use balanced in simp)
  ultimately have st: "stack (ctx w4) = (cur (ctx w))\<lparr>fillStyle := v\<rparr> # stack (ctx w)"
    by simp
  have "ctx w' = fold apply_call (bars w4) (apply_call (FillStyle ''black'') (apply_call Restore (ctx w4)))"
    by (simp add: w' ctx_fold_issue del: apply_call.simps)
  with state_fillRects [OF bars, of w4 "apply_call (FillStyle ''black'') (apply_call Restore (ctx w4))"]
  show ?thesis by (simp add: st)
qed


text \<open>Every draw: clear and save, transform calls, the object loop, restore, black, bars.\<close>

lemma Scene_draw_anatomy:
  obtains tr bars where
    "Scene_draw cam s w =
      (case draw_objects s (fold issue
          ([FillStyle (backgroundColor s),
            FillRect 0 0 (real (width (canvas (ctx w)))) (real (height (canvas (ctx w)))), Save] @ tr) w) of
         Throw e w4 \<Rightarrow> Throw e w4
       | Normal w4 \<Rightarrow> Normal (fold issue (Restore # FillStyle ''black'' # bars w4) w4))"
    "list_all is_transform_call tr" "\<And>w4. list_all is_fillRect (bars w4)"
proof (cases "logicalWidth s \<le> 0 \<or> aspectRatio s \<le> 0")
  case True
  show ?thesis
    by (rule that [where bars = "\<lambda>w4. []"
          and tr = "[Scale (scaleX cam) (scaleY cam), Translate (- transform_x cam) (- transform_y cam)]"])
       (simp_all add: Scene_draw_off [OF True])
next
  case False
  then have pos: "0 < logicalWidth s" "0 < aspectRatio s" by auto
  show ?thesis
  proof (cases "js_gt (aspectRatio s) (js_div (height (canvas (ctx w))) (width (canvas (ctx w))))")
    case True
    show ?thesis
      by (rule that [where bars = "\<lambda>w4.
            [FillRect 0 0 (real (width (canvas (ctx w))) / 2 - (real (height (canvas (ctx w))) / aspectRatio s) / 2)
               (real (height (canvas (ctx w4)))),
             FillRect (real (width (canvas (ctx w))) / 2 + (real (height (canvas (ctx w))) / aspectRatio s) / 2) 0
               (real (width (canvas (ctx w4)))) (real (height (canvas (ctx w4))))]"
          and tr = "[Translate (real (width (canvas (ctx w))) / 2 - (real (height (canvas (ctx w))) / aspectRatio s) / 2) 0,
             Scale (real (height (canvas (ctx w))) / logicalWidth s) (real (height (canvas (ctx w))) / logicalWidth s),
             Scale (scaleX cam) (scaleY cam), Translate (- transform_x cam) (- transform_y cam)]"])
         (simp_all add: Scene_draw_left_right [OF pos True])
  next
    case False
    show ?thesis
      by (rule that [where bars = "\<lambda>w4.
            [FillRect 0 0 (real (width (canvas (ctx w4))))
               (real (height (canvas (ctx w))) / 2 - (real (width (canvas (ctx w))) * aspectRatio s) / 2),
             FillRect 0 ((real (width (canvas (ctx w))) * aspectRatio s) / 2 + real (height (canvas (ctx w))) / 2)
               (real (width (canvas (ctx w4)))) (real (height (canvas (ctx w4))))]"
          and tr = "[Translate 0 (real (height (canvas (ctx w))) / 2 - (real (width (canvas (ctx w))) * aspectRatio s) / 2),
             Scale (real (width (canvas (ctx w))) / (logicalWidth s / aspectRatio s))
                   (real (width (canvas (ctx w))) / (logicalWidth s / aspectRatio s)),
             Scale (scaleX cam) (scaleY cam), Translate (- transform_x cam) (- transform_y cam)]"])
         (simp_all add: Scene_draw_top_bottom [OF pos False])
  qed
qed

lemma no_save_restore_in_transforms:
  "list_all is_transform_call ks \<Longrightarrow> filter (\<lambda>k. k = Save \<or> k = Restore) ks = []"
  by (induction ks) (auto elim: is_transform_call.elims)

lemma no_save_restore_in_fillRects:
  "list_all is_fillRect ks \<Longrightarrow> filter (\<lambda>k. k = Save \<or> k = Restore) ks = []"
  by (induction ks) (auto elim: is_fillRect.elims)

lemma no_save_restore_in_filters:
  "filter (\<lambda>k. k = Save \<or> k = Restore) (map (\<lambda>g. Filter (filter_for g)) gs) = []"
  by (induction gs) simp_all

lemma sorted_sorted_copy: "sorted (map layer (sorted_copy s w))"
  by (simp add: sorted_copy_def sorted_Array_sort)

lemma mset_sorted_copy: "mset (sorted_copy s w) = mset (arrays w (gameObjects s))"
  by (simp add: sorted_copy_def mset_Array_sort)

section \<open>Exceptions\<close>

lemma propagatedI:
  assumes "objs = pre @ g # post" "sel g = Some h" "h c = Throw e c'"
    and "evs = pfx @ evs0 @ [Invoked k g c]" "invocations k pfx = []"
    and "map fst (invocations k evs0) = filter (\<lambda>x. sel x \<noteq> None) pre"
    and "list_all (returned sel) (invocations k evs0)"
  shows "propagated k sel objs evs e c'"
  unfolding propagated_def
  apply (rule exI [of _ pre], rule exI [of _ g], rule exI [of _ post], rule exI [of _ h],
      rule exI [of _ c])
  using assms by (simp add: butlast_append)

lemma update_object_body:
  "update_object g w = invoke Update g (update g) (fold issue ((\<lambda>g. []) g) w)"
  by (simp add: update_object_def)

lemma start_object_body:
  "start_object g w = invoke Start g (start g) (fold issue ((\<lambda>g. []) g) w)"
  by (simp add: start_object_def)

lemma plain_loop_Throw:
  assumes body: "\<And>g w. body g w = invoke k g (sel g) (fold issue ((\<lambda>g. []) g) w)"
    and run: "for_of body objs w = Throw e w'"
    and before: "trace w = trace w0 @ pfx" "invocations k pfx = []"
  shows "propagated k sel objs (events_since w0 w') e (ctx w')"
proof -
  from for_of_Throw [of body k sel "\<lambda>g. []" "\<lambda>g c. True", OF body _ run]
  obtain pre g post h c evs where *: "objs = pre @ g # post" "sel g = Some h" "h c = Throw e (ctx w')"
    "trace w' = trace w @ evs @ [Invoked k g c]"
    "map fst (invocations k evs) = filter (\<lambda>g. sel g \<noteq> None) pre"
    "list_all (returned sel) (invocations k evs)"
    by auto
  have "events_since w0 w' = pfx @ evs @ [Invoked k g c]"
    by (rule events_since_append) (simp add: * before)
  from propagatedI [OF *(1,2,3) this before(2) *(5,6)] show ?thesis .
qed

lemma plain_loop_Normal:
  assumes body: "\<And>g w. body g w = invoke k g (sel g) (fold issue ((\<lambda>g. []) g) w)"
    and run: "for_of body objs w = Normal w'"
    and before: "trace w = trace w0 @ pfx" "invocations k pfx = []"
  shows "list_all (returned sel) (invocations k (events_since w0 w'))
       \<and> map fst (invocations k (events_since w0 w')) = filter (\<lambda>g. sel g \<noteq> None) objs"
proof -
  from for_of_Normal [of body k sel "\<lambda>g. []" "\<lambda>g c. True", OF body _ run]
  obtain evs where *: "trace w' = trace w @ evs"
    "map fst (invocations k evs) = filter (\<lambda>g. sel g \<noteq> None) objs"
    "list_all (returned sel) (invocations k evs)"
    by auto
  have "events_since w0 w' = pfx @ evs"
    by (rule events_since_append) (simp add: * before)
  with * before(2) show ?thesis by simp
qed


text \<open>Unfolding the model on a concrete input.\<close>

lemmas run_defs =
  Scene_draw_def draw_clear_def draw_viewport_def draw_camera_def draw_objects_def
  draw_letterboxes_def fillRect_opt_def spread_def sort_in_place_def draw_object_def
  invoke_def issue_def js_div_def compare_layer_def Let_def
  Scene_update_def update_object_def Scene_start_def start_object_def

lemmas example_defs =
  example_scene_def hooked_scene_def example_world_def fresh_ctx_def identity_def camera_at_def
  demo_objects_def unsorted_objects_def faulty_objects_def
  object_on_def paint_hook_def save_hook_def throwing_hook_def

section \<open>The start pass\<close>




section \<open>The letterbox transform\<close>

text \<open>
  C1. With logical coordinates in use (\<open>logicalWidth > 0\<close> and \<open>aspectRatio > 0\<close>) and
  \<open>aspectRatio > windowAspectRatio\<close>, where \<open>windowAspectRatio\<close> is the canvas height
  divided by the canvas width, draw computes
  \<open>letterBox1End = canvasWidth/2 - (canvasHeight/aspectRatio)/2\<close> and
  \<open>letterBox2Start = canvasWidth/2 + (canvasHeight/aspectRatio)/2\<close>, translates by
  \<open>(letterBox1End, 0)\<close> and scales both axes by \<open>canvasHeight / logicalWidth\<close>. Whatever the
  outcome of the object loop, the transform calls of the Scene are this translate, this
  scale, and the two camera calls, right after the save; when draw returns, the bars are
  drawn from \<open>letterBox1End\<close> and \<open>letterBox2Start\<close>. The instance of the claim (canvas 800
  by 400, \<open>logicalWidth = 20\<close>, \<open>aspectRatio = 1\<close>: this branch, 200, 600 and factor 20)
  follows the theorem.
\<close>

theorem draw_letterbox_left_right:
  assumes dims: "cw = real (width (canvas (ctx w)))" "ch = real (height (canvas (ctx w)))"
    and logical: "0 < logicalWidth s" "0 < aspectRatio s"
    and branch: "js_gt (aspectRatio s) (js_div (height (canvas (ctx w))) (width (canvas (ctx w))))"
    and bounds: "l1 = cw / 2 - (ch / aspectRatio s) / 2" "l2 = cw / 2 + (ch / aspectRatio s) / 2"
    and factor: "scaleFactor = ch / logicalWidth s"
    and result: "w' = state_of (Scene_draw cam s w)"
  shows "filter is_transform_call (ctx_calls (events_since w w'))
           = [Translate l1 0, Scale scaleFactor scaleFactor,
              Scale (scaleX cam) (scaleY cam), Translate (- transform_x cam) (- transform_y cam)]
       \<and> take 7 (ctx_calls (events_since w w'))
           = [FillStyle (backgroundColor s), FillRect 0 0 cw ch, Save,
              Translate l1 0, Scale scaleFactor scaleFactor,
              Scale (scaleX cam) (scaleY cam), Translate (- transform_x cam) (- transform_y cam)]
       \<and> (is_Normal (Scene_draw cam s w) \<longrightarrow>
            ctx_calls (events_since w w')
              = [FillStyle (backgroundColor s), FillRect 0 0 cw ch, Save,
                 Translate l1 0, Scale scaleFactor scaleFactor,
                 Scale (scaleX cam) (scaleY cam), Translate (- transform_x cam) (- transform_y cam)]
                @ map (\<lambda>g. Filter (filter_for g)) (sorted_copy s w)
                @ [Restore, FillStyle ''black'',
                   FillRect 0 0 l1 (real (height (canvas (ctx w')))),
                   FillRect l2 0 (real (width (canvas (ctx w')))) (real (height (canvas (ctx w'))))])"
proof (cases "is_Normal (Scene_draw cam s w)")
  case True
  then have run: "Scene_draw cam s w = Normal w'"
    unfolding result by (rule Normal_state_of)
  from draw_shape_Normal [OF Scene_draw_left_right [OF logical branch] run] obtain evs w4 where
    "w' = fold issue [Restore, FillStyle ''black'',
           FillRect 0 0 l1 (real (height (canvas (ctx w4)))),
           FillRect l2 0 (real (width (canvas (ctx w4)))) (real (height (canvas (ctx w4))))] w4"
    "events_since w w' = map Ctx [FillStyle (backgroundColor s), FillRect 0 0 cw ch, Save,
           Translate l1 0, Scale scaleFactor scaleFactor,
           Scale (scaleX cam) (scaleY cam), Translate (- transform_x cam) (- transform_y cam)]
         @ evs @ map Ctx [Restore, FillStyle ''black'',
           FillRect 0 0 l1 (real (height (canvas (ctx w4)))),
           FillRect l2 0 (real (width (canvas (ctx w4)))) (real (height (canvas (ctx w4))))]"
    "ctx_calls evs = map (\<lambda>g. Filter (filter_for g)) (sorted_copy s w)"
    unfolding dims bounds factor by blast
  then show ?thesis by (simp del: apply_call.simps)
next
  case False
  then obtain e where run: "Scene_draw cam s w = Throw e w'"
    unfolding result using Throw_state_of by blast
  from draw_shape_Throw [OF Scene_draw_left_right [OF logical branch] run] obtain pre g c evs where
    "events_since w w' = map Ctx [FillStyle (backgroundColor s), FillRect 0 0 cw ch, Save,
           Translate l1 0, Scale scaleFactor scaleFactor,
           Scale (scaleX cam) (scaleY cam), Translate (- transform_x cam) (- transform_y cam)]
         @ evs @ [Invoked Draw g c]"
    "ctx_calls evs = map (\<lambda>g. Filter (filter_for g)) (pre @ [g])"
    unfolding dims bounds factor by blast
  with False show ?thesis by simp
qed


theorem draw_letterbox_left_right_witness:
  "js_gt 1 (js_div 400 800)
   \<and> is_Normal (Scene_draw (camera_at 5 3) (example_scene 20 1) (example_world 800 400 demo_objects))
   \<and> ctx_calls (events_since (example_world 800 400 demo_objects)
        (state_of (Scene_draw (camera_at 5 3) (example_scene 20 1) (example_world 800 400 demo_objects))))
      = [FillStyle ''white'', FillRect 0 0 800 400, Save,
         Translate 200 0, Scale 20 20, Scale 1 1, Translate (- 5) (- 3),
         Filter ''blur(2px)'', Filter ''none'', Filter ''none'',
         Restore, FillStyle ''black'', FillRect 0 0 200 400, FillRect 600 0 800 400]"
proof -
  let ?S = "example_scene 20 1"
  let ?W = "example_world 800 400 demo_objects"
  let ?C = "camera_at 5 3"
  have branch: "js_gt 1 (js_div 400 800)"
    by (simp add: js_div_def)
  have normal: "is_Normal (Scene_draw ?C ?S ?W)"
    by (simp add: run_defs example_defs)
  have cv: "canvas (ctx (state_of (Scene_draw ?C ?S ?W))) = \<lparr>width = 800, height = 400\<rparr>"
    by (simp add: run_defs example_defs)
  have sc: "sorted_copy ?S ?W = [object_on (- 1) None, object_on 0 (Some paint_hook), object_on 2 (Some paint_hook)]"
    by (simp add: sorted_copy_def compare_layer_def example_defs)
  have "is_Normal (Scene_draw ?C ?S ?W) \<longrightarrow>
      ctx_calls (events_since ?W (state_of (Scene_draw ?C ?S ?W)))
        = [FillStyle (backgroundColor ?S), FillRect 0 0 800 400, Save,
           Translate 200 0, Scale 20 20,
           Scale (scaleX ?C) (scaleY ?C), Translate (- transform_x ?C) (- transform_y ?C)]
          @ map (\<lambda>g. Filter (filter_for g)) (sorted_copy ?S ?W)
          @ [Restore, FillStyle ''black'',
             FillRect 0 0 200 (real (height (canvas (ctx (state_of (Scene_draw ?C ?S ?W)))))),
             FillRect 600 0 (real (width (canvas (ctx (state_of (Scene_draw ?C ?S ?W))))))
               (real (height (canvas (ctx (state_of (Scene_draw ?C ?S ?W))))))]"
    using draw_letterbox_left_right [where cw = 800 and ch = 400 and s = ?S and w = ?W
        and cam = ?C and ?l1.0 = 200 and ?l2.0 = 600 and scaleFactor = 20
        and w' = "state_of (Scene_draw ?C ?S ?W)"]
    by (simp add: example_scene_def example_world_def fresh_ctx_def js_div_def)
  with normal have "ctx_calls (events_since ?W (state_of (Scene_draw ?C ?S ?W)))
        = [FillStyle (backgroundColor ?S), FillRect 0 0 800 400, Save,
           Translate 200 0, Scale 20 20,
           Scale (scaleX ?C) (scaleY ?C), Translate (- transform_x ?C) (- transform_y ?C)]
          @ map (\<lambda>g. Filter (filter_for g)) (sorted_copy ?S ?W)
          @ [Restore, FillStyle ''black'',
             FillRect 0 0 200 (real (height (canvas (ctx (state_of (Scene_draw ?C ?S ?W)))))),
             FillRect 600 0 (real (width (canvas (ctx (state_of (Scene_draw ?C ?S ?W))))))
               (real (height (canvas (ctx (state_of (Scene_draw ?C ?S ?W))))))]"
    by blast
  then have "ctx_calls (events_since ?W (state_of (Scene_draw ?C ?S ?W)))
      = [FillStyle ''white'', FillRect 0 0 800 400, Save,
         Translate 200 0, Scale 20 20, Scale 1 1, Translate (- 5) (- 3),
         Filter ''blur(2px)'', Filter ''none'', Filter ''none'',
         Restore, FillStyle ''black'', FillRect 0 0 200 400, FillRect 600 0 800 400]"
    unfolding cv sc
    by (simp add: example_scene_def camera_at_def filter_for_def object_on_def)
  with branch normal show ?thesis by blast
qed

text \<open>
  C2. With logical coordinates in use and \<open>aspectRatio \<le> windowAspectRatio\<close>, draw computes
  \<open>letterBox1End = canvasHeight/2 - (canvasWidth*aspectRatio)/2\<close> and
  \<open>letterBox2Start = (canvasWidth*aspectRatio)/2 + canvasHeight/2\<close>, translates by
  \<open>(0, letterBox1End)\<close> and scales both axes by \<open>canvasWidth / (logicalWidth/aspectRatio)\<close>.
\<close>

theorem draw_letterbox_top_bottom:
  assumes dims: "cw = real (width (canvas (ctx w)))" "ch = real (height (canvas (ctx w)))"
    and logical: "0 < logicalWidth s" "0 < aspectRatio s"
    and branch: "js_le (aspectRatio s) (js_div (height (canvas (ctx w))) (width (canvas (ctx w))))"
    and bounds: "l1 = ch / 2 - (cw * aspectRatio s) / 2" "l2 = (cw * aspectRatio s) / 2 + ch / 2"
    and factor: "scaleFactor = cw / (logicalWidth s / aspectRatio s)"
    and result: "w' = state_of (Scene_draw cam s w)"
  shows "filter is_transform_call (ctx_calls (events_since w w'))
           = [Translate 0 l1, Scale scaleFactor scaleFactor,
              Scale (scaleX cam) (scaleY cam), Translate (- transform_x cam) (- transform_y cam)]
       \<and> take 7 (ctx_calls (events_since w w'))
           = [FillStyle (backgroundColor s), FillRect 0 0 cw ch, Save,
              Translate 0 l1, Scale scaleFactor scaleFactor,
              Scale (scaleX cam) (scaleY cam), Translate (- transform_x cam) (- transform_y cam)]
       \<and> (is_Normal (Scene_draw cam s w) \<longrightarrow>
            ctx_calls (events_since w w')
              = [FillStyle (backgroundColor s), FillRect 0 0 cw ch, Save,
                 Translate 0 l1, Scale scaleFactor scaleFactor,
                 Scale (scaleX cam) (scaleY cam), Translate (- transform_x cam) (- transform_y cam)]
                @ map (\<lambda>g. Filter (filter_for g)) (sorted_copy s w)
                @ [Restore, FillStyle ''black'',
                   FillRect 0 0 (real (width (canvas (ctx w')))) l1,
                   FillRect 0 l2 (real (width (canvas (ctx w')))) (real (height (canvas (ctx w'))))])"
proof (cases "is_Normal (Scene_draw cam s w)")
  case True
  then have run: "Scene_draw cam s w = Normal w'"
    unfolding result by (rule Normal_state_of)
  note shape = Scene_draw_top_bottom [OF logical js_le_not_gt [OF branch]]
  from draw_shape_Normal [OF shape run] obtain evs w4 where
    "w' = fold issue [Restore, FillStyle ''black'',
           FillRect 0 0 (real (width (canvas (ctx w4)))) l1,
           FillRect 0 l2 (real (width (canvas (ctx w4)))) (real (height (canvas (ctx w4))))] w4"
    "events_since w w' = map Ctx [FillStyle (backgroundColor s), FillRect 0 0 cw ch, Save,
           Translate 0 l1, Scale scaleFactor scaleFactor,
           Scale (scaleX cam) (scaleY cam), Translate (- transform_x cam) (- transform_y cam)]
         @ evs @ map Ctx [Restore, FillStyle ''black'',
           FillRect 0 0 (real (width (canvas (ctx w4)))) l1,
           FillRect 0 l2 (real (width (canvas (ctx w4)))) (real (height (canvas (ctx w4))))]"
    "ctx_calls evs = map (\<lambda>g. Filter (filter_for g)) (sorted_copy s w)"
    unfolding dims bounds factor by blast
  then show ?thesis by (simp del: apply_call.simps)
next
  case False
  then obtain e where run: "Scene_draw cam s w = Throw e w'"
    unfolding result using Throw_state_of by blast
  note shape = Scene_draw_top_bottom [OF logical js_le_not_gt [OF branch]]
  from draw_shape_Throw [OF shape run] obtain pre g c evs where
    "events_since w w' = map Ctx [FillStyle (backgroundColor s), FillRect 0 0 cw ch, Save,
           Translate 0 l1, Scale scaleFactor scaleFactor,
           Scale (scaleX cam) (scaleY cam), Translate (- transform_x cam) (- transform_y cam)]
         @ evs @ [Invoked Draw g c]"
    "ctx_calls evs = map (\<lambda>g. Filter (filter_for g)) (pre @ [g])"
    unfolding dims bounds factor by blast
  with False show ?thesis by simp
qed

theorem draw_letterbox_top_bottom_witness:
  "js_le (1 / 2) (js_div 800 400)
   \<and> is_Normal (Scene_draw (camera_at 5 3) (example_scene 20 (1 / 2)) (example_world 400 800 demo_objects))
   \<and> ctx_calls (events_since (example_world 400 800 demo_objects)
        (state_of (Scene_draw (camera_at 5 3) (example_scene 20 (1 / 2)) (example_world 400 800 demo_objects))))
      = [FillStyle ''white'', FillRect 0 0 400 800, Save,
         Translate 0 300, Scale 10 10, Scale 1 1, Translate (- 5) (- 3),
         Filter ''blur(2px)'', Filter ''none'', Filter ''none'',
         Restore, FillStyle ''black'', FillRect 0 0 400 300, FillRect 0 500 400 800]"
proof -
  let ?S = "example_scene 20 (1 / 2)"
  let ?W = "example_world 400 800 demo_objects"
  let ?C = "camera_at 5 3"
  have branch: "js_le (1 / 2) (js_div 800 400)"
    by (simp add: js_div_def)
  have normal: "is_Normal (Scene_draw ?C ?S ?W)"
    by (simp add: run_defs example_defs)
  have cv: "canvas (ctx (state_of (Scene_draw ?C ?S ?W))) = \<lparr>width = 400, height = 800\<rparr>"
    by (simp add: run_defs example_defs)
  have sc: "sorted_copy ?S ?W = [object_on (- 1) None, object_on 0 (Some paint_hook), object_on 2 (Some paint_hook)]"
    by (simp add: sorted_copy_def compare_layer_def example_defs)
  have "is_Normal (Scene_draw ?C ?S ?W) \<longrightarrow>
      ctx_calls (events_since ?W (state_of (Scene_draw ?C ?S ?W)))
        = [FillStyle (backgroundColor ?S), FillRect 0 0 400 800, Save,
           Translate 0 300, Scale 10 10,
           Scale (scaleX ?C) (scaleY ?C), Translate (- transform_x ?C) (- transform_y ?C)]
          @ map (\<lambda>g. Filter (filter_for g)) (sorted_copy ?S ?W)
          @ [Restore, FillStyle ''black'',
             FillRect 0 0 (real (width (canvas (ctx (state_of (Scene_draw ?C ?S ?W)))))) 300,
             FillRect 0 500 (real (width (canvas (ctx (state_of (Scene_draw ?C ?S ?W))))))
               (real (height (canvas (ctx (state_of (Scene_draw ?C ?S ?W))))))]"
    using draw_letterbox_top_bottom [where cw = 400 and ch = 800 and s = ?S and w = ?W
        and cam = ?C and ?l1.0 = 300 and ?l2.0 = 500 and scaleFactor = 10
        and w' = "state_of (Scene_draw ?C ?S ?W)"]
    by (simp add: example_scene_def example_world_def fresh_ctx_def js_div_def)
  with normal have "ctx_calls (events_since ?W (state_of (Scene_draw ?C ?S ?W)))
        = [FillStyle (backgroundColor ?S), FillRect 0 0 400 800, Save,
           Translate 0 300, Scale 10 10,
           Scale (scaleX ?C) (scaleY ?C), Translate (- transform_x ?C) (- transform_y ?C)]
          @ map (\<lambda>g. Filter (filter_for g)) (sorted_copy ?S ?W)
          @ [Restore, FillStyle ''black'',
             FillRect 0 0 (real (width (canvas (ctx (state_of (Scene_draw ?C ?S ?W)))))) 300,
             FillRect 0 500 (real (width (canvas (ctx (state_of (Scene_draw ?C ?S ?W))))))
               (real (height (canvas (ctx (state_of (Scene_draw ?C ?S ?W))))))]"
    by blast
  then have "ctx_calls (events_since ?W (state_of (Scene_draw ?C ?S ?W)))
      = [FillStyle ''white'', FillRect 0 0 400 800, Save,
         Translate 0 300, Scale 10 10, Scale 1 1, Translate (- 5) (- 3),
         Filter ''blur(2px)'', Filter ''none'', Filter ''none'',
         Restore, FillStyle ''black'', FillRect 0 0 400 300, FillRect 0 500 400 800]"
    unfolding cv sc
    by (simp add: example_scene_def camera_at_def filter_for_def object_on_def)
  with branch normal show ?thesis by blast
qed

section \<open>The camera transform\<close>

text \<open>
  C3. Without logical coordinates (\<open>logicalWidth \<le> 0\<close> or \<open>aspectRatio \<le> 0\<close>) the viewport
  step does nothing; the only transform calls draw makes are the camera scale by
  \<open>(scaleX, scaleY)\<close> followed by the camera translate by \<open>(-x, -y)\<close>, and the only
  rectangle it fills is the clearing one: no letterbox translate, no letterbox scale, no
  bars. In every configuration the camera calls come after the calls of the viewport step,
  and the transform the object loop starts with is the camera scale and translate
  multiplied onto the transform the viewport step left: composed with it, not replacing
  it.
\<close>

theorem draw_camera_only_without_logical_coordinates:
  assumes viewport: "w2 = snd (draw_viewport s (draw_clear s w))"
    and camera: "w3 = draw_camera cam w2"
    and result: "w' = state_of (Scene_draw cam s w)"
  shows "(logicalWidth s \<le> 0 \<or> aspectRatio s \<le> 0 \<longrightarrow>
            w2 = draw_clear s w
          \<and> filter is_transform_call (ctx_calls (events_since w w'))
              = [Scale (scaleX cam) (scaleY cam), Translate (- transform_x cam) (- transform_y cam)]
          \<and> filter is_fillRect (ctx_calls (events_since w w'))
              = [FillRect 0 0 (real (width (canvas (ctx w)))) (real (height (canvas (ctx w))))]
          \<and> transform (cur (ctx w3))
              = translate (- transform_x cam) (- transform_y cam)
                  (scale (scaleX cam) (scaleY cam) (transform (cur (ctx w)))))
       \<and> filter is_transform_call (ctx_calls (events_since w w'))
           = filter is_transform_call (ctx_calls (events_since w w2))
             @ [Scale (scaleX cam) (scaleY cam), Translate (- transform_x cam) (- transform_y cam)]
       \<and> transform (cur (ctx w3))
           = translate (- transform_x cam) (- transform_y cam)
               (scale (scaleX cam) (scaleY cam) (transform (cur (ctx w2))))"
proof -
  let ?cam = "[Scale (scaleX cam) (scaleY cam), Translate (- transform_x cam) (- transform_y cam)]"
  have t3: "transform (cur (ctx w3)) = translate (- transform_x cam) (- transform_y cam)
      (scale (scaleX cam) (scaleY cam) (transform (cur (ctx w2))))"
    unfolding camera by (rule transform_draw_camera)
  have off: "w2 = draw_clear s w
      \<and> filter is_transform_call (ctx_calls (events_since w w')) = ?cam
      \<and> filter is_fillRect (ctx_calls (events_since w w'))
          = [FillRect 0 0 (real (width (canvas (ctx w)))) (real (height (canvas (ctx w))))]"
    if a: "logicalWidth s \<le> 0 \<or> aspectRatio s \<le> 0"
  proof -
    from draw_shape_calls [OF Scene_draw_off [OF a, of cam w]] obtain gs where
      "ctx_calls (events_since w w') =
         [FillStyle (backgroundColor s),
          FillRect 0 0 (real (width (canvas (ctx w)))) (real (height (canvas (ctx w)))), Save,
          Scale (scaleX cam) (scaleY cam), Translate (- transform_x cam) (- transform_y cam)]
         @ map (\<lambda>g. Filter (filter_for g)) gs
         @ (if is_Normal (Scene_draw cam s w) then [Restore, FillStyle ''black''] else [])"
      unfolding result by blast
    then show ?thesis
      using draw_viewport_off(1) [OF a, of "draw_clear s w"] by (simp add: viewport)
  qed
  have calls: "filter is_transform_call (ctx_calls (events_since w w'))
      = filter is_transform_call (ctx_calls (events_since w w2)) @ ?cam"
  proof (cases "logicalWidth s \<le> 0 \<or> aspectRatio s \<le> 0")
    case True
    from off [OF True] have "events_since w w2 = map Ctx
       [FillStyle (backgroundColor s),
        FillRect 0 0 (real (width (canvas (ctx w)))) (real (height (canvas (ctx w)))), Save]"
      by (intro events_since_append) (simp add: trace_draw_clear)
    with off [OF True] show ?thesis by simp
  next
    case False
    then have pos: "0 < logicalWidth s" "0 < aspectRatio s" by auto
    show ?thesis
    proof (cases "js_gt (aspectRatio s) (js_div (height (canvas (ctx w))) (width (canvas (ctx w))))")
      case True
      from draw_viewport_left_right [OF pos, of "draw_clear s w"] True
      have "events_since w w2 = map Ctx
         [FillStyle (backgroundColor s),
          FillRect 0 0 (real (width (canvas (ctx w)))) (real (height (canvas (ctx w)))), Save,
          Translate (real (width (canvas (ctx w))) / 2 - (real (height (canvas (ctx w))) / aspectRatio s) / 2) 0,
          Scale (real (height (canvas (ctx w))) / logicalWidth s) (real (height (canvas (ctx w))) / logicalWidth s)]"
        by (intro events_since_append) (simp add: viewport trace_draw_clear)
      moreover from draw_shape_calls [OF Scene_draw_left_right [OF pos True, of cam]] have
        "filter is_transform_call (ctx_calls (events_since w w')) =
         [Translate (real (width (canvas (ctx w))) / 2 - (real (height (canvas (ctx w))) / aspectRatio s) / 2) 0,
          Scale (real (height (canvas (ctx w))) / logicalWidth s) (real (height (canvas (ctx w))) / logicalWidth s),
          Scale (scaleX cam) (scaleY cam), Translate (- transform_x cam) (- transform_y cam)]"
        unfolding result by (auto simp del: apply_call.simps)
      ultimately show ?thesis by simp
    next
      case False
      from draw_viewport_top_bottom [OF pos, of "draw_clear s w"] False
      have "events_since w w2 = map Ctx
         [FillStyle (backgroundColor s),
          FillRect 0 0 (real (width (canvas (ctx w)))) (real (height (canvas (ctx w)))), Save,
          Translate 0 (real (height (canvas (ctx w))) / 2 - (real (width (canvas (ctx w))) * aspectRatio s) / 2),
          Scale (real (width (canvas (ctx w))) / (logicalWidth s / aspectRatio s))
                (real (width (canvas (ctx w))) / (logicalWidth s / aspectRatio s))]"
        by (intro events_since_append) (simp add: viewport trace_draw_clear)
      moreover from draw_shape_calls [OF Scene_draw_top_bottom [OF pos False, of cam]] have
        "filter is_transform_call (ctx_calls (events_since w w')) =
         [Translate 0 (real (height (canvas (ctx w))) / 2 - (real (width (canvas (ctx w))) * aspectRatio s) / 2),
          Scale (real (width (canvas (ctx w))) / (logicalWidth s / aspectRatio s))
                (real (width (canvas (ctx w))) / (logicalWidth s / aspectRatio s)),
          Scale (scaleX cam) (scaleY cam), Translate (- transform_x cam) (- transform_y cam)]"
        unfolding result by (auto simp del: apply_call.simps)
      ultimately show ?thesis by simp
    qed
  qed
  have t3off: "transform (cur (ctx w3)) = translate (- transform_x cam) (- transform_y cam)
      (scale (scaleX cam) (scaleY cam) (transform (cur (ctx w))))"
    if a: "logicalWidth s \<le> 0 \<or> aspectRatio s \<le> 0"
    using t3 off [OF a] by simp
  from off t3off t3 calls show ?thesis by blast
qed


theorem draw_camera_only_without_logical_coordinates_witness:
  "logicalWidth (example_scene (- 1) (- 1)) \<le> 0
   \<and> filter is_transform_call (ctx_calls (events_since (example_world 800 400 demo_objects)
        (state_of (Scene_draw (camera_at 5 3) (example_scene (- 1) (- 1)) (example_world 800 400 demo_objects)))))
       = [Scale 1 1, Translate (- 5) (- 3)]
   \<and> filter is_fillRect (ctx_calls (events_since (example_world 800 400 demo_objects)
        (state_of (Scene_draw (camera_at 5 3) (example_scene (- 1) (- 1)) (example_world 800 400 demo_objects)))))
       = [FillRect 0 0 800 400]
   \<and> transform (cur (ctx (draw_camera (camera_at 5 3)
        (snd (draw_viewport (example_scene (- 1) (- 1))
           (draw_clear (example_scene (- 1) (- 1)) (example_world 800 400 demo_objects)))))))
       = \<lparr>ma = 1, mb = 0, mc = 0, md = 1, me = - 5, mf = - 3\<rparr>
   \<and> filter is_transform_call (ctx_calls (events_since (example_world 800 400 demo_objects)
        (state_of (Scene_draw (camera_at 5 3) (example_scene 20 1) (example_world 800 400 demo_objects)))))
       = [Translate 200 0, Scale 20 20, Scale 1 1, Translate (- 5) (- 3)]
   \<and> transform (cur (ctx (draw_camera (camera_at 5 3)
        (snd (draw_viewport (example_scene 20 1)
           (draw_clear (example_scene 20 1) (example_world 800 400 demo_objects)))))))
       = \<lparr>ma = 20, mb = 0, mc = 0, md = 20, me = 100, mf = - 60\<rparr>"
proof -
  let ?W = "example_world 800 400 demo_objects"
  let ?C = "camera_at 5 3"
  let ?S = "example_scene (- 1) (- 1)"
  let ?T = "example_scene 20 1"
  have h: "logicalWidth ?S \<le> 0"
    by (simp add: example_scene_def)
  note off = draw_camera_only_without_logical_coordinates
      [where s = ?S and w = ?W and cam = ?C, OF refl refl refl]
  note on = draw_camera_only_without_logical_coordinates
      [where s = ?T and w = ?W and cam = ?C, OF refl refl refl]
  from off h have a:
    "filter is_transform_call (ctx_calls (events_since ?W (state_of (Scene_draw ?C ?S ?W))))
       = [Scale (scaleX ?C) (scaleY ?C), Translate (- transform_x ?C) (- transform_y ?C)]"
    "filter is_fillRect (ctx_calls (events_since ?W (state_of (Scene_draw ?C ?S ?W))))
       = [FillRect 0 0 (real (width (canvas (ctx ?W)))) (real (height (canvas (ctx ?W))))]"
    "transform (cur (ctx (draw_camera ?C (snd (draw_viewport ?S (draw_clear ?S ?W))))))
       = translate (- transform_x ?C) (- transform_y ?C)
           (scale (scaleX ?C) (scaleY ?C) (transform (cur (ctx ?W))))"
    by blast+
  from on have b:
    "filter is_transform_call (ctx_calls (events_since ?W (state_of (Scene_draw ?C ?T ?W))))
       = filter is_transform_call (ctx_calls (events_since ?W (snd (draw_viewport ?T (draw_clear ?T ?W)))))
         @ [Scale (scaleX ?C) (scaleY ?C), Translate (- transform_x ?C) (- transform_y ?C)]"
    "transform (cur (ctx (draw_camera ?C (snd (draw_viewport ?T (draw_clear ?T ?W))))))
       = translate (- transform_x ?C) (- transform_y ?C)
           (scale (scaleX ?C) (scaleY ?C)
             (transform (cur (ctx (snd (draw_viewport ?T (draw_clear ?T ?W)))))))"
    by blast+
  have v: "filter is_transform_call (ctx_calls (events_since ?W (snd (draw_viewport ?T (draw_clear ?T ?W)))))
      = [Translate 200 0, Scale 20 20]"
    "transform (cur (ctx (snd (draw_viewport ?T (draw_clear ?T ?W)))))
      = \<lparr>ma = 20, mb = 0, mc = 0, md = 20, me = 200, mf = 0\<rparr>"
    by (simp_all add: events_since_def run_defs example_defs translate_def scale_def)
  have a': "filter is_transform_call (ctx_calls (events_since ?W (state_of (Scene_draw ?C ?S ?W))))
       = [Scale 1 1, Translate (- 5) (- 3)]"
    "filter is_fillRect (ctx_calls (events_since ?W (state_of (Scene_draw ?C ?S ?W))))
       = [FillRect 0 0 800 400]"
    "transform (cur (ctx (draw_camera ?C (snd (draw_viewport ?S (draw_clear ?S ?W))))))
       = \<lparr>ma = 1, mb = 0, mc = 0, md = 1, me = - 5, mf = - 3\<rparr>"
    unfolding a by (simp_all add: example_defs translate_def scale_def)
  have b': "filter is_transform_call (ctx_calls (events_since ?W (state_of (Scene_draw ?C ?T ?W))))
       = [Translate 200 0, Scale 20 20, Scale 1 1, Translate (- 5) (- 3)]"
    "transform (cur (ctx (draw_camera ?C (snd (draw_viewport ?T (draw_clear ?T ?W))))))
       = \<lparr>ma = 20, mb = 0, mc = 0, md = 20, me = 100, mf = - 60\<rparr>"
    unfolding b v by (simp_all add: camera_at_def translate_def scale_def)
  from h a' b' show ?thesis by blast
qed

section \<open>Save and restore around the draw body\<close>

text \<open>
  C7, as stated, claims that after every draw that returns the transform of the context
  is the one before the call. The restore of draw pops whatever is on top of the stack of
  saved states: when the draw hook of an object calls \<^verbatim>\<open>ctx.save()\<close> and returns without the
  matching \<^verbatim>\<open>ctx.restore()\<close>, the restore of draw pops the state that hook saved, and the
  camera transform stays in force for the caller.
\<close>

theorem draw_restore_counterexample:
  "is_Normal (Scene_draw (camera_at 5 3) (example_scene (- 1) (- 1))
      (example_world 800 400 [object_on 0 (Some save_hook)]))
   \<and> transform (cur (ctx (state_of (Scene_draw (camera_at 5 3) (example_scene (- 1) (- 1))
      (example_world 800 400 [object_on 0 (Some save_hook)])))))
     \<noteq> transform (cur (ctx (example_world 800 400 [object_on 0 (Some save_hook)])))
   \<and> transform (cur (ctx (state_of (Scene_draw (camera_at 5 3) (example_scene (- 1) (- 1))
      (example_world 800 400 [object_on 0 (Some save_hook)])))))
     = \<lparr>ma = 1, mb = 0, mc = 0, md = 1, me = - 5, mf = - 3\<rparr>"
  by (simp add: run_defs example_defs translate_def scale_def)

text \<open>
  C7, amended. On every draw that returns, the calls draw itself makes contain exactly
  one save followed by exactly one restore: no path returns without the restore. When in
  addition every draw hook leaves the stack of saved states as it found it, the transform
  (the whole drawing state but the fill style) and the stack are after the call what they
  were before it, whichever letterbox branch and camera transform were applied.
\<close>

theorem draw_restores_transform:
  assumes run: "Scene_draw cam s w = Normal w'"
  shows "filter (\<lambda>k. k = Save \<or> k = Restore) (ctx_calls (events_since w w')) = [Save, Restore]
       \<and> ((\<forall>g \<in> set (arrays w (gameObjects s)).
              \<forall>h c c'. draw g = Some h \<longrightarrow> h c = Normal c' \<longrightarrow> stack c' = stack c) \<longrightarrow>
            transform (cur (ctx w')) = transform (cur (ctx w))
          \<and> cur (ctx w') = (cur (ctx w))\<lparr>fillStyle := ''black''\<rparr>
          \<and> stack (ctx w') = stack (ctx w))"
proof -
  obtain tr bars where shape: "Scene_draw cam s w =
      (case draw_objects s (fold issue
          ([FillStyle (backgroundColor s),
            FillRect 0 0 (real (width (canvas (ctx w)))) (real (height (canvas (ctx w)))), Save] @ tr) w) of
         Throw e w4 \<Rightarrow> Throw e w4
       | Normal w4 \<Rightarrow> Normal (fold issue (Restore # FillStyle ''black'' # bars w4) w4))"
    and tr: "list_all is_transform_call tr" and bars: "\<And>w4. list_all is_fillRect (bars w4)"
    by (rule Scene_draw_anatomy [of cam s w], rule that)
  have st: "cur (ctx w') = (cur (ctx w))\<lparr>fillStyle := ''black''\<rparr> \<and> stack (ctx w') = stack (ctx w)"
    if balanced: "\<forall>g \<in> set (arrays w (gameObjects s)).
        \<forall>h c c'. draw g = Some h \<longrightarrow> h c = Normal c' \<longrightarrow> stack c' = stack c"
    by (rule restored_by_shape [OF shape tr bars balanced run])
  from draw_shape_Normal [OF shape run] obtain evs w4 where
    "events_since w w' = map Ctx ([FillStyle (backgroundColor s),
            FillRect 0 0 (real (width (canvas (ctx w)))) (real (height (canvas (ctx w)))), Save] @ tr)
        @ evs @ map Ctx (Restore # FillStyle ''black'' # bars w4)"
    "ctx_calls evs = map (\<lambda>g. Filter (filter_for g)) (sorted_copy s w)"
    by blast
  then have "filter (\<lambda>k. k = Save \<or> k = Restore) (ctx_calls (events_since w w')) = [Save, Restore]"
    by (simp add: no_save_restore_in_transforms [OF tr] no_save_restore_in_fillRects [OF bars]
        no_save_restore_in_filters)
  with st show ?thesis by simp
qed

theorem draw_restores_transform_witness:
  "is_Normal (Scene_draw (camera_at 5 3) (example_scene 20 1) (example_world 800 400 demo_objects))
   \<and> filter (\<lambda>k. k = Save \<or> k = Restore) (ctx_calls (events_since (example_world 800 400 demo_objects)
        (state_of (Scene_draw (camera_at 5 3) (example_scene 20 1) (example_world 800 400 demo_objects)))))
       = [Save, Restore]
   \<and> transform (cur (ctx (state_of
        (Scene_draw (camera_at 5 3) (example_scene 20 1) (example_world 800 400 demo_objects)))))
       = identity
   \<and> stack (ctx (state_of
        (Scene_draw (camera_at 5 3) (example_scene 20 1) (example_world 800 400 demo_objects)))) = []"
proof -
  let ?S = "example_scene 20 1"
  let ?W = "example_world 800 400 demo_objects"
  let ?C = "camera_at 5 3"
  have balanced: "\<forall>g \<in> set (arrays ?W (gameObjects ?S)).
      \<forall>h c c'. draw g = Some h \<longrightarrow> h c = Normal c' \<longrightarrow> stack c' = stack c"
    by (auto simp: example_defs)
  have normal: "is_Normal (Scene_draw ?C ?S ?W)"
    by (simp add: run_defs example_defs)
  then have run: "Scene_draw ?C ?S ?W = Normal (state_of (Scene_draw ?C ?S ?W))"
    by (rule Normal_state_of)
  from draw_restores_transform [OF run] balanced
  have "filter (\<lambda>k. k = Save \<or> k = Restore) (ctx_calls (events_since ?W (state_of (Scene_draw ?C ?S ?W))))
      = [Save, Restore]"
    "transform (cur (ctx (state_of (Scene_draw ?C ?S ?W)))) = transform (cur (ctx ?W))"
    "stack (ctx (state_of (Scene_draw ?C ?S ?W))) = stack (ctx ?W)"
    by blast+
  moreover have "transform (cur (ctx ?W)) = identity" "stack (ctx ?W) = []"
    by (simp_all add: example_world_def fresh_ctx_def)
  ultimately show ?thesis using normal by simp
qed

section \<open>The fill style after draw\<close>

text \<open>
  C10. Every draw that returns leaves the fill style of the context set to \<open>black\<close>: the
  assignment after the restore is unconditional, also when no bars are drawn.
\<close>

theorem draw_leaves_fillStyle_black:
  assumes run: "Scene_draw cam s w = Normal w'"
  shows "fillStyle (cur (ctx w')) = ''black''"
proof -
  obtain tr bars where shape: "Scene_draw cam s w =
      (case draw_objects s (fold issue
          ([FillStyle (backgroundColor s),
            FillRect 0 0 (real (width (canvas (ctx w)))) (real (height (canvas (ctx w)))), Save] @ tr) w) of
         Throw e w4 \<Rightarrow> Throw e w4
       | Normal w4 \<Rightarrow> Normal (fold issue (Restore # FillStyle ''black'' # bars w4) w4))"
    and bars: "\<And>w4. list_all is_fillRect (bars w4)"
    by (rule Scene_draw_anatomy [of cam s w], rule that)
  from shape run obtain w4 where "w' = fold issue (Restore # FillStyle ''black'' # bars w4) w4"
    by (auto split: completion.splits)
  then have "ctx w' = fold apply_call (bars w4) (apply_call (FillStyle ''black'') (apply_call Restore (ctx w4)))"
    by (simp add: ctx_fold_issue del: apply_call.simps)
  with state_fillRects [OF bars, of w4 "apply_call (FillStyle ''black'') (apply_call Restore (ctx w4))"]
  show ?thesis by simp
qed

theorem draw_leaves_fillStyle_black_witness:
  "is_Normal (Scene_draw (camera_at 5 3) (example_scene (- 1) (- 1)) (example_world 800 400 demo_objects))
   \<and> fillStyle (cur (ctx (example_world 800 400 demo_objects))) = ''#000000''
   \<and> filter is_fillRect (ctx_calls (events_since (example_world 800 400 demo_objects)
        (state_of (Scene_draw (camera_at 5 3) (example_scene (- 1) (- 1)) (example_world 800 400 demo_objects)))))
       = [FillRect 0 0 800 400]
   \<and> fillStyle (cur (ctx (state_of
        (Scene_draw (camera_at 5 3) (example_scene (- 1) (- 1)) (example_world 800 400 demo_objects)))))
       = ''black''"
proof -
  let ?S = "example_scene (- 1) (- 1)"
  let ?W = "example_world 800 400 demo_objects"
  let ?C = "camera_at 5 3"
  have normal: "is_Normal (Scene_draw ?C ?S ?W)"
    by (simp add: run_defs example_defs)
  then have run: "Scene_draw ?C ?S ?W = Normal (state_of (Scene_draw ?C ?S ?W))"
    by (rule Normal_state_of)
  have before: "fillStyle (cur (ctx ?W)) = ''#000000''"
    by (simp add: example_world_def fresh_ctx_def)
  have rects: "filter is_fillRect (ctx_calls (events_since ?W (state_of (Scene_draw ?C ?S ?W))))
       = [FillRect 0 0 800 400]"
    by (simp add: events_since_def run_defs example_defs)
  from draw_leaves_fillStyle_black [OF run] normal before rects show ?thesis
    by blast
qed

section \<open>The object loop of draw\<close>

text \<open>
  C5. draw invokes the draw hooks in the order of a copy of \<open>gameObjects\<close> sorted by
  ascending \<open>layer\<close>: the layers of the objects drawn, in the order they are drawn, never
  decrease (an object is never drawn before one of a smaller layer); the objects drawn are
  those of the sorted copy that have a draw hook, all of them when draw returns and an
  initial part of them when a hook throws. The copy is a fresh array holding the same
  objects; the array \<open>gameObjects\<close> refers to is the same after draw as before.
\<close>

theorem draw_in_layer_order:
  assumes allocated: "gameObjects s < next_addr w"
    and result: "w' = state_of (Scene_draw cam s w)"
    and drawn: "drawn = map fst (invocations Draw (events_since w w'))"
  shows "sorted (map layer drawn)
       \<and> prefix drawn (filter (\<lambda>g. draw g \<noteq> None) (sorted_copy s w))
       \<and> (is_Normal (Scene_draw cam s w) \<longrightarrow> drawn = filter (\<lambda>g. draw g \<noteq> None) (sorted_copy s w))
       \<and> sorted (map layer (sorted_copy s w))
       \<and> mset (sorted_copy s w) = mset (arrays w (gameObjects s))
       \<and> arrays w' (next_addr w) = sorted_copy s w
       \<and> arrays w' (gameObjects s) = arrays w (gameObjects s)"
proof -
  obtain tr bars where shape: "Scene_draw cam s w =
      (case draw_objects s (fold issue
          ([FillStyle (backgroundColor s),
            FillRect 0 0 (real (width (canvas (ctx w)))) (real (height (canvas (ctx w)))), Save] @ tr) w) of
         Throw e w4 \<Rightarrow> Throw e w4
       | Normal w4 \<Rightarrow> Normal (fold issue (Restore # FillStyle ''black'' # bars w4) w4))"
    by (rule Scene_draw_anatomy [of cam s w], rule that)
  let ?all = "filter (\<lambda>g. draw g \<noteq> None) (sorted_copy s w)"
  have sorted_all: "sorted (map layer ?all)"
    by (rule sorted_filter) (rule sorted_sorted_copy)
  have main: "prefix drawn ?all \<and> (is_Normal (Scene_draw cam s w) \<longrightarrow> drawn = ?all)
      \<and> arrays w' = (arrays w)(next_addr w := sorted_copy s w)"
  proof (cases "is_Normal (Scene_draw cam s w)")
    case True
    then have run: "Scene_draw cam s w = Normal w'"
      unfolding result by (rule Normal_state_of)
    from draw_shape_Normal [OF shape run] obtain evs w4 where
      "events_since w w' = map Ctx ([FillStyle (backgroundColor s),
            FillRect 0 0 (real (width (canvas (ctx w)))) (real (height (canvas (ctx w)))), Save] @ tr)
          @ evs @ map Ctx (Restore # FillStyle ''black'' # bars w4)"
      "map fst (invocations Draw evs) = ?all"
      "arrays w' = (arrays w)(next_addr w := sorted_copy s w)"
      by blast
    then show ?thesis by (simp add: drawn)
  next
    case False
    then obtain e where run: "Scene_draw cam s w = Throw e w'"
      unfolding result using Throw_state_of by blast
    from draw_shape_Throw [OF shape run] obtain pre g post h c evs where
      "sorted_copy s w = pre @ g # post" "draw g = Some h"
      "events_since w w' = map Ctx ([FillStyle (backgroundColor s),
            FillRect 0 0 (real (width (canvas (ctx w)))) (real (height (canvas (ctx w)))), Save] @ tr)
          @ evs @ [Invoked Draw g c]"
      "map fst (invocations Draw evs) = filter (\<lambda>g. draw g \<noteq> None) pre"
      "arrays w' = (arrays w)(next_addr w := sorted_copy s w)"
      by blast
    with False show ?thesis by (simp add: drawn)
  qed
  then obtain rest where rest: "?all = drawn @ rest"
    by (auto simp: prefix_def)
  from sorted_all have "sorted (map layer drawn)"
    unfolding rest by (simp add: sorted_append)
  moreover from allocated main have "arrays w' (gameObjects s) = arrays w (gameObjects s)"
    by simp
  ultimately show ?thesis
    using main sorted_sorted_copy [of s w] mset_sorted_copy [of s w] by simp
qed

theorem draw_in_layer_order_witness:
  "gameObjects (example_scene 20 1) < next_addr (example_world 800 400 unsorted_objects)
   \<and> is_Normal (Scene_draw (camera_at 5 3) (example_scene 20 1) (example_world 800 400 unsorted_objects))
   \<and> map fst (invocations Draw (events_since (example_world 800 400 unsorted_objects)
        (state_of (Scene_draw (camera_at 5 3) (example_scene 20 1) (example_world 800 400 unsorted_objects)))))
       = [object_on (- 1) (Some paint_hook), object_on 0 (Some paint_hook), object_on 2 (Some paint_hook)]
   \<and> arrays (state_of (Scene_draw (camera_at 5 3) (example_scene 20 1) (example_world 800 400 unsorted_objects)))
        (gameObjects (example_scene 20 1))
       = [object_on 2 (Some paint_hook), object_on (- 1) (Some paint_hook), object_on 0 (Some paint_hook)]"
proof -
  let ?S = "example_scene 20 1"
  let ?W = "example_world 800 400 unsorted_objects"
  let ?C = "camera_at 5 3"
  have allocated: "gameObjects ?S < next_addr ?W"
    by (simp add: example_scene_def example_world_def)
  have normal: "is_Normal (Scene_draw ?C ?S ?W)"
    by (simp add: run_defs example_defs)
  have sc: "filter (\<lambda>g. draw g \<noteq> None) (sorted_copy ?S ?W)
      = [object_on (- 1) (Some paint_hook), object_on 0 (Some paint_hook), object_on 2 (Some paint_hook)]"
    by (simp add: sorted_copy_def compare_layer_def example_defs)
  have orig: "arrays ?W (gameObjects ?S)
      = [object_on 2 (Some paint_hook), object_on (- 1) (Some paint_hook), object_on 0 (Some paint_hook)]"
    by (simp add: example_scene_def example_world_def unsorted_objects_def)
  note T = draw_in_layer_order [OF allocated refl refl, of ?C]
  from T normal have "map fst (invocations Draw (events_since ?W (state_of (Scene_draw ?C ?S ?W))))
      = filter (\<lambda>g. draw g \<noteq> None) (sorted_copy ?S ?W)"
    by blast
  moreover from T have "arrays (state_of (Scene_draw ?C ?S ?W)) (gameObjects ?S) = arrays ?W (gameObjects ?S)"
    by blast
  ultimately show ?thesis
    using allocated normal unfolding sc orig by blast
qed

text \<open>
  C6. Each time draw invokes a draw hook, the filter of the context the hook is handed is
  \<open>blur(2px)\<close> when the layer of the object is \<open>-1\<close> and \<open>none\<close> otherwise: it depends
  on that object alone, whatever the objects before it were and whatever their hooks did
  to the filter.
\<close>

theorem draw_sets_filter_per_object:
  assumes result: "w' = state_of (Scene_draw cam s w)"
  shows "\<forall>p \<in> set (invocations Draw (events_since w w')).
           ctx_filter (cur (snd p)) = (if layer (fst p) = - 1 then ''blur(2px)'' else ''none'')"
proof -
  obtain tr bars where shape: "Scene_draw cam s w =
      (case draw_objects s (fold issue
          ([FillStyle (backgroundColor s),
            FillRect 0 0 (real (width (canvas (ctx w)))) (real (height (canvas (ctx w)))), Save] @ tr) w) of
         Throw e w4 \<Rightarrow> Throw e w4
       | Normal w4 \<Rightarrow> Normal (fold issue (Restore # FillStyle ''black'' # bars w4) w4))"
    by (rule Scene_draw_anatomy [of cam s w], rule that)
  have "list_all (\<lambda>p. ctx_filter (cur (snd p)) = filter_for (fst p)) (invocations Draw (events_since w w'))"
  proof (cases "is_Normal (Scene_draw cam s w)")
    case True
    then have run: "Scene_draw cam s w = Normal w'"
      unfolding result by (rule Normal_state_of)
    from draw_shape_Normal [OF shape run] obtain evs w4 where
      "events_since w w' = map Ctx ([FillStyle (backgroundColor s),
            FillRect 0 0 (real (width (canvas (ctx w)))) (real (height (canvas (ctx w)))), Save] @ tr)
          @ evs @ map Ctx (Restore # FillStyle ''black'' # bars w4)"
      "list_all (\<lambda>p. ctx_filter (cur (snd p)) = filter_for (fst p)) (invocations Draw evs)"
      by blast
    then show ?thesis by simp
  next
    case False
    then obtain e where run: "Scene_draw cam s w = Throw e w'"
      unfolding result using Throw_state_of by blast
    from draw_shape_Throw [OF shape run] obtain g c evs where
      "events_since w w' = map Ctx ([FillStyle (backgroundColor s),
            FillRect 0 0 (real (width (canvas (ctx w)))) (real (height (canvas (ctx w)))), Save] @ tr)
          @ evs @ [Invoked Draw g c]"
      "list_all (\<lambda>p. ctx_filter (cur (snd p)) = filter_for (fst p)) (invocations Draw evs)"
      "ctx_filter (cur c) = filter_for g"
      by blast
    then show ?thesis by simp
  qed
  then show ?thesis
    by (simp add: list_all_iff filter_for_def)
qed

theorem draw_sets_filter_per_object_witness:
  "map (\<lambda>p. (layer (fst p), ctx_filter (cur (snd p))))
     (invocations Draw (events_since (example_world 800 400 unsorted_objects)
        (state_of (Scene_draw (camera_at 5 3) (example_scene 20 1) (example_world 800 400 unsorted_objects)))))
     = [(- 1, ''blur(2px)''), (0, ''none''), (2, ''none'')]
   \<and> list_all (\<lambda>p. ctx_filter (cur (snd p)) = (if layer (fst p) = - 1 then ''blur(2px)'' else ''none''))
       (invocations Draw (events_since (example_world 800 400 unsorted_objects)
        (state_of (Scene_draw (camera_at 5 3) (example_scene 20 1) (example_world 800 400 unsorted_objects)))))"
proof -
  let ?S = "example_scene 20 1"
  let ?W = "example_world 800 400 unsorted_objects"
  let ?C = "camera_at 5 3"
  have "map (\<lambda>p. (layer (fst p), ctx_filter (cur (snd p))))
     (invocations Draw (events_since ?W (state_of (Scene_draw ?C ?S ?W))))
     = [(- 1, ''blur(2px)''), (0, ''none''), (2, ''none'')]"
    by (simp add: events_since_def run_defs example_defs)
  moreover from draw_sets_filter_per_object [where w = ?W and cam = ?C and s = ?S, OF refl]
  have "list_all (\<lambda>p. ctx_filter (cur (snd p)) = (if layer (fst p) = - 1 then ''blur(2px)'' else ''none''))
       (invocations Draw (events_since ?W (state_of (Scene_draw ?C ?S ?W))))"
    by (simp add: list_all_iff)
  ultimately show ?thesis by blast
qed

section \<open>Exceptions from hooks\<close>

text \<open>
  C8. When the start, update or draw hook of a game object throws, the Scene entry point
  ends at once with that exception: the invocation of the throwing hook is the last event
  of the call (in draw not even the restore follows), the hooks invoked before it are those
  of the objects before it in the order of the loop, and no object after it is invoked.
  The Scene catches nothing: when an entry point returns, every hook it invoked returned,
  and update and draw have then invoked the hook of every object that has one. (In
  \<^verbatim>\<open>_start\<close> the exception may also come from the start hook of the scene itself, before
  any object is started.)
\<close>

theorem hook_exception_propagates:
  "(Scene_update s w = Throw e w' \<longrightarrow>
      propagated Update update (arrays w (gameObjects s)) (events_since w w') e (ctx w'))
 \<and> (Scene_update s w = Normal w' \<longrightarrow>
      list_all (returned update) (invocations Update (events_since w w'))
      \<and> map fst (invocations Update (events_since w w'))
          = filter (\<lambda>g. update g \<noteq> None) (arrays w (gameObjects s)))
 \<and> (Scene_draw cam s w = Throw e w' \<longrightarrow>
      propagated Draw draw (sorted_copy s w) (events_since w w') e (ctx w'))
 \<and> (Scene_draw cam s w = Normal w' \<longrightarrow>
      list_all (returned draw) (invocations Draw (events_since w w'))
      \<and> map fst (invocations Draw (events_since w w'))
          = filter (\<lambda>g. draw g \<noteq> None) (sorted_copy s w))
 \<and> (Scene_start s w = Throw e (s', w') \<longrightarrow>
      (\<exists>h. start_hook s = Some h \<and> h (ctx w) = Throw e (ctx w')
            \<and> events_since w w' = [SceneStart (ctx w)])
      \<or> propagated Start start (arrays w (gameObjects s)) (events_since w w') e (ctx w'))
 \<and> (Scene_start s w = Normal (s', w') \<longrightarrow>
      list_all (returned start) (invocations Start (events_since w w')))"
proof (intro conjI impI)
  assume "Scene_update s w = Throw e w'"
  then have "for_of update_object (arrays w (gameObjects s)) w = Throw e w'"
    by (simp add: Scene_update_def)
  from plain_loop_Throw [OF update_object_body this, of w "[]"]
  show "propagated Update update (arrays w (gameObjects s)) (events_since w w') e (ctx w')"
    by simp
next
  assume "Scene_update s w = Normal w'"
  then have run: "for_of update_object (arrays w (gameObjects s)) w = Normal w'"
    by (simp add: Scene_update_def)
  from plain_loop_Normal [OF update_object_body run, of w "[]"]
  show "list_all (returned update) (invocations Update (events_since w w'))"
    and "map fst (invocations Update (events_since w w'))
          = filter (\<lambda>g. update g \<noteq> None) (arrays w (gameObjects s))"
    by simp_all
next
  assume run: "Scene_draw cam s w = Throw e w'"
  obtain tr bars where shape: "Scene_draw cam s w =
      (case draw_objects s (fold issue
          ([FillStyle (backgroundColor s),
            FillRect 0 0 (real (width (canvas (ctx w)))) (real (height (canvas (ctx w)))), Save] @ tr) w) of
         Throw e w4 \<Rightarrow> Throw e w4
       | Normal w4 \<Rightarrow> Normal (fold issue (Restore # FillStyle ''black'' # bars w4) w4))"
    by (rule Scene_draw_anatomy [of cam s w], rule that)
  from draw_shape_Throw [OF shape run] obtain pre g post h c evs where
    *: "sorted_copy s w = pre @ g # post" "draw g = Some h" "h c = Throw e (ctx w')"
    "events_since w w' = map Ctx ([FillStyle (backgroundColor s),
          FillRect 0 0 (real (width (canvas (ctx w)))) (real (height (canvas (ctx w)))), Save] @ tr)
        @ evs @ [Invoked Draw g c]"
    "map fst (invocations Draw evs) = filter (\<lambda>g. draw g \<noteq> None) pre"
    "list_all (returned draw) (invocations Draw evs)"
    by blast
  show "propagated Draw draw (sorted_copy s w) (events_since w w') e (ctx w')"
    by (rule propagatedI [OF *(1,2,3,4) _ *(5,6)]) simp
next
  assume run: "Scene_draw cam s w = Normal w'"
  obtain tr bars where shape: "Scene_draw cam s w =
      (case draw_objects s (fold issue
          ([FillStyle (backgroundColor s),
            FillRect 0 0 (real (width (canvas (ctx w)))) (real (height (canvas (ctx w)))), Save] @ tr) w) of
         Throw e w4 \<Rightarrow> Throw e w4
       | Normal w4 \<Rightarrow> Normal (fold issue (Restore # FillStyle ''black'' # bars w4) w4))"
    by (rule Scene_draw_anatomy [of cam s w], rule that)
  from draw_shape_Normal [OF shape run] obtain evs w4 where
    "events_since w w' = map Ctx ([FillStyle (backgroundColor s),
          FillRect 0 0 (real (width (canvas (ctx w)))) (real (height (canvas (ctx w)))), Save] @ tr)
        @ evs @ map Ctx (Restore # FillStyle ''black'' # bars w4)"
    "map fst (invocations Draw evs) = filter (\<lambda>g. draw g \<noteq> None) (sorted_copy s w)"
    "list_all (returned draw) (invocations Draw evs)"
    by blast
  then show "list_all (returned draw) (invocations Draw (events_since w w'))"
    and "map fst (invocations Draw (events_since w w'))
          = filter (\<lambda>g. draw g \<noteq> None) (sorted_copy s w)"
    by simp_all
next
  assume run: "Scene_start s w = Throw e (s', w')"
  then have fresh: "\<not> hasStarted s"
    by (auto simp: Scene_start_def)
  show "(\<exists>h. start_hook s = Some h \<and> h (ctx w) = Throw e (ctx w')
            \<and> events_since w w' = [SceneStart (ctx w)])
      \<or> propagated Start start (arrays w (gameObjects s)) (events_since w w') e (ctx w')"
  proof (cases "call_hook SceneStart (start_hook s) w")
    case (Throw e1 w1)
    with run fresh have eq: "e1 = e" "w1 = w'"
      by (simp_all add: Scene_start_def Let_def)
    from call_hook_Throw [OF Throw [unfolded eq]] obtain h c' where
      "start_hook s = Some h" "h (ctx w) = Throw e c'"
      "w' = w\<lparr>ctx := c', trace := trace w @ [SceneStart (ctx w)]\<rparr>"
      by blast
    moreover from this have "events_since w w' = [SceneStart (ctx w)]"
      by (intro events_since_append) simp
    ultimately show ?thesis by simp
  next
    case (Normal wa)
    with run fresh have loop: "for_of start_object (arrays wa (gameObjects s)) wa = Throw e w'"
      by (auto simp: Scene_start_def Let_def split: completion.splits)
    from call_hook_Normal [OF Normal] have wa:
      "trace wa = trace w @ (case start_hook s of None \<Rightarrow> [] | Some h \<Rightarrow> [SceneStart (ctx w)])"
      "arrays wa = arrays w"
      by auto
    have "invocations Start (case start_hook s of None \<Rightarrow> [] | Some h \<Rightarrow> [SceneStart (ctx w)]) = []"
      by (simp split: option.splits)
    from plain_loop_Throw [OF start_object_body loop wa(1) this]
    show ?thesis by (simp add: wa(2))
  qed
next
  assume run: "Scene_start s w = Normal (s', w')"
  show "list_all (returned start) (invocations Start (events_since w w'))"
  proof (cases "hasStarted s")
    case True
    with run have "w' = w" by (simp add: Scene_start_def)
    then show ?thesis by (simp add: events_since_def)
  next
    case False
    with run obtain wa where
      hook: "call_hook SceneStart (start_hook s) w = Normal wa"
      and loop: "for_of start_object (arrays wa (gameObjects s)) wa = Normal w'"
      by (auto simp: Scene_start_def Let_def split: completion.splits)
    from call_hook_Normal [OF hook] have wa:
      "trace wa = trace w @ (case start_hook s of None \<Rightarrow> [] | Some h \<Rightarrow> [SceneStart (ctx w)])"
      by auto
    have "invocations Start (case start_hook s of None \<Rightarrow> [] | Some h \<Rightarrow> [SceneStart (ctx w)]) = []"
      by (simp split: option.splits)
    from plain_loop_Normal [OF start_object_body loop wa this]
    show ?thesis by simp
  qed
qed


theorem hook_exception_propagates_witness:
  "propagated Update update faulty_objects
     (events_since (example_world 800 400 faulty_objects)
        (state_of (Scene_update (example_scene (- 1) (- 1)) (example_world 800 400 faulty_objects))))
     ''boom''
     (ctx (state_of (Scene_update (example_scene (- 1) (- 1)) (example_world 800 400 faulty_objects))))
   \<and> map (\<lambda>p. layer (fst p)) (invocations Update
       (events_since (example_world 800 400 faulty_objects)
        (state_of (Scene_update (example_scene (- 1) (- 1)) (example_world 800 400 faulty_objects)))))
      = [0, 1]
   \<and> list_all (returned update) (invocations Update
       (events_since (example_world 800 400 demo_objects)
        (state_of (Scene_update (example_scene (- 1) (- 1)) (example_world 800 400 demo_objects)))))
   \<and> propagated Draw draw faulty_objects
     (events_since (example_world 800 400 faulty_objects)
        (state_of (Scene_draw (camera_at 5 3) (example_scene (- 1) (- 1)) (example_world 800 400 faulty_objects))))
     ''boom''
     (ctx (state_of (Scene_draw (camera_at 5 3) (example_scene (- 1) (- 1)) (example_world 800 400 faulty_objects))))
   \<and> ctx_calls (events_since (example_world 800 400 faulty_objects)
        (state_of (Scene_draw (camera_at 5 3) (example_scene (- 1) (- 1)) (example_world 800 400 faulty_objects))))
      = [FillStyle ''white'', FillRect 0 0 800 400, Save, Scale 1 1, Translate (- 5) (- 3),
         Filter ''none'', Filter ''none'']
   \<and> list_all (returned draw) (invocations Draw
       (events_since (example_world 800 400 demo_objects)
        (state_of (Scene_draw (camera_at 5 3) (example_scene (- 1) (- 1)) (example_world 800 400 demo_objects)))))
   \<and> propagated Start start faulty_objects
     (events_since (example_world 800 400 faulty_objects)
        (snd (state_of (Scene_start (example_scene (- 1) (- 1)) (example_world 800 400 faulty_objects)))))
     ''boom''
     (ctx (snd (state_of (Scene_start (example_scene (- 1) (- 1)) (example_world 800 400 faulty_objects)))))
   \<and> list_all (returned start) (invocations Start
       (events_since (example_world 800 400 demo_objects)
        (snd (state_of (Scene_start (example_scene (- 1) (- 1)) (example_world 800 400 demo_objects))))))"
proof -
  let ?S = "example_scene (- 1) (- 1)"
  let ?F = "example_world 800 400 faulty_objects"
  let ?D = "example_world 800 400 demo_objects"
  let ?C = "camera_at 5 3"
  have objs: "arrays ?F (gameObjects ?S) = faulty_objects" "sorted_copy ?S ?F = faulty_objects"
    by (simp_all add: sorted_copy_def compare_layer_def example_defs)
  have u1: "Scene_update ?S ?F = Throw ''boom'' (state_of (Scene_update ?S ?F))"
    by (simp add: run_defs example_defs)
  have u2: "Scene_update ?S ?D = Normal (state_of (Scene_update ?S ?D))"
    by (simp add: run_defs example_defs)
  have d1: "Scene_draw ?C ?S ?F = Throw ''boom'' (state_of (Scene_draw ?C ?S ?F))"
    by (simp add: run_defs example_defs)
  have d2: "Scene_draw ?C ?S ?D = Normal (state_of (Scene_draw ?C ?S ?D))"
    by (simp add: run_defs example_defs)
  have s1: "Scene_start ?S ?F = Throw ''boom''
      (fst (state_of (Scene_start ?S ?F)), snd (state_of (Scene_start ?S ?F)))"
    by (simp add: run_defs example_defs)
  have s2: "Scene_start ?S ?D = Normal
      (fst (state_of (Scene_start ?S ?D)), snd (state_of (Scene_start ?S ?D)))"
    by (simp add: run_defs example_defs)
  have nohook: "start_hook ?S = None"
    by (simp add: example_scene_def)
  have a: "propagated Update update faulty_objects
      (events_since ?F (state_of (Scene_update ?S ?F))) ''boom'' (ctx (state_of (Scene_update ?S ?F)))"
    using hook_exception_propagates [where s = ?S and w = ?F and e = "''boom''"
        and w' = "state_of (Scene_update ?S ?F)"] u1
    unfolding objs by blast
  have b: "list_all (returned update) (invocations Update (events_since ?D (state_of (Scene_update ?S ?D))))"
    using hook_exception_propagates [where s = ?S and w = ?D and w' = "state_of (Scene_update ?S ?D)"] u2
    by blast
  have c: "propagated Draw draw faulty_objects
      (events_since ?F (state_of (Scene_draw ?C ?S ?F))) ''boom'' (ctx (state_of (Scene_draw ?C ?S ?F)))"
    using hook_exception_propagates [where s = ?S and w = ?F and e = "''boom''" and cam = ?C
        and w' = "state_of (Scene_draw ?C ?S ?F)"] d1
    unfolding objs by blast
  have d: "list_all (returned draw) (invocations Draw (events_since ?D (state_of (Scene_draw ?C ?S ?D))))"
    using hook_exception_propagates [where s = ?S and w = ?D and cam = ?C
        and w' = "state_of (Scene_draw ?C ?S ?D)"] d2
    by blast
  have e: "propagated Start start faulty_objects
      (events_since ?F (snd (state_of (Scene_start ?S ?F)))) ''boom''
      (ctx (snd (state_of (Scene_start ?S ?F))))"
    using hook_exception_propagates [where s = ?S and w = ?F and e = "''boom''"
        and s' = "fst (state_of (Scene_start ?S ?F))"
        and w' = "snd (state_of (Scene_start ?S ?F))"] s1 nohook
    unfolding objs by simp
  have f: "list_all (returned start) (invocations Start (events_since ?D (snd (state_of (Scene_start ?S ?D)))))"
    using hook_exception_propagates [where s = ?S and w = ?D
        and s' = "fst (state_of (Scene_start ?S ?D))"
        and w' = "snd (state_of (Scene_start ?S ?D))"] s2
    by blast
  have g: "map (\<lambda>p. layer (fst p)) (invocations Update (events_since ?F (state_of (Scene_update ?S ?F)))) = [0, 1]"
    by (simp add: events_since_def run_defs example_defs)
  have h: "ctx_calls (events_since ?F (state_of (Scene_draw ?C ?S ?F)))
      = [FillStyle ''white'', FillRect 0 0 800 400, Save, Scale 1 1, Translate (- 5) (- 3),
         Filter ''none'', Filter ''none'']"
    by (simp add: events_since_def run_defs example_defs)
  from a b c d e f g h show ?thesis by blast
qed

section \<open>The two draw implementations\<close>

text \<open>
  C9. The draw of part_001 and the draw of part_000 configured with \<open>logicalWidth = 20\<close>
  and \<open>aspectRatio = 100\<close> compute different letterbox geometry. On a canvas 400 wide and
  800 high they choose different branches (part_000 bars left and right, part_001 bars top
  and bottom); on a canvas 1 wide and 100 high both choose the top and bottom branch, with
  different bounds and scale factors.
\<close>

theorem hardcoded_draw_differs:
  "fst (draw_viewport (example_scene 20 100) (example_world 400 800 []))
     = \<lparr>windowAspectRatio = Finite 2, letterBox1End = Some 196, letterBox2Start = Some 204,
        usingLogicalCoordinates = True\<rparr>
   \<and> ctx_calls (events_since (example_world 400 800 [])
        (snd (draw_viewport (example_scene 20 100) (example_world 400 800 []))))
       = [Translate 196 0, Scale 40 40]
   \<and> fst (draw_viewport_001 (example_world 400 800 [])) = (200, 600)
   \<and> ctx_calls (events_since (example_world 400 800 [])
        (snd (draw_viewport_001 (example_world 400 800 []))))
       = [Translate 0 200, Scale 20 20]
   \<and> filter is_fillRect (ctx_calls (events_since (example_world 400 800 [])
        (state_of (Scene_draw (camera_at 0 0) (example_scene 20 100) (example_world 400 800 [])))))
       = [FillRect 0 0 400 800, FillRect 0 0 196 800, FillRect 204 0 400 800]
   \<and> filter is_fillRect (ctx_calls (events_since (example_world 400 800 [])
        (state_of (Scene_draw_001 (example_scene 20 100) (example_world 400 800 [])))))
       = [FillRect 0 0 400 800, FillRect 0 0 400 200, FillRect 0 600 400 800]
   \<and> fst (draw_viewport (example_scene 20 100) (example_world 1 100 []))
       = \<lparr>windowAspectRatio = Finite 100, letterBox1End = Some 0, letterBox2Start = Some 100,
          usingLogicalCoordinates = True\<rparr>
   \<and> ctx_calls (events_since (example_world 1 100 [])
        (snd (draw_viewport (example_scene 20 100) (example_world 1 100 []))))
       = [Translate 0 0, Scale 5 5]
   \<and> fst (draw_viewport_001 (example_world 1 100 [])) = (99 / 2, 101 / 2)
   \<and> ctx_calls (events_since (example_world 1 100 [])
        (snd (draw_viewport_001 (example_world 1 100 []))))
       = [Translate 0 (99 / 2), Scale (1 / 20) (1 / 20)]"
  by (simp add: events_since_def run_defs draw_viewport_001_def draw_letterboxes_001_def
      Scene_draw_001_def example_defs)

end
